theory Spec2Isabelle
  imports Complex_Main "HOL-Library.Log_Nat"
begin

section \<open>Python values shared by the whole development\<close>

text \<open>
  Exceptions are values.  \<open>CancelledError\<close> is asyncio's cancellation signal; since
  Python 3.8 it derives from \<open>BaseException\<close>, so an \<open>except Exception\<close> clause
  does not catch it (\<open>claude.py\<close> imports \<open>enum.StrEnum\<close>, which needs Python 3.11).
  Every other constructor is a subclass of \<open>Exception\<close>.
\<close>

datatype py_exception =
    CancelledError string
  | ValueError string
  | TypeError string
  | KeyError string
  | AttributeError string
  | IndexError string
  | RuntimeError string
  | OverflowError string
  | ZeroDivisionError string

fun is_Exception :: "py_exception \<Rightarrow> bool" where
  "is_Exception (CancelledError _) = False"
| "is_Exception _ = True"

text \<open>\<open>str(e)\<close> of an exception raised with one string argument.  (\<open>str\<close> of a
  \<open>KeyError\<close> is the \<open>repr\<close> of its key; the development never prints one.)\<close>

fun exn_str :: "py_exception \<Rightarrow> string" where
  "exn_str (CancelledError s) = s"
| "exn_str (ValueError s) = s"
| "exn_str (TypeError s) = s"
| "exn_str (KeyError s) = s"
| "exn_str (AttributeError s) = s"
| "exn_str (IndexError s) = s"
| "exn_str (RuntimeError s) = s"
| "exn_str (OverflowError s) = s"
| "exn_str (ZeroDivisionError s) = s"

text \<open>
  A Python \<open>float\<close> is an IEEE 754 binary64 number: a finite value, an infinity
  (\<open>Inf True\<close> is the negative one) or NaN.  Finite values are kept as rationals; the sign
  of zero is not kept: the comparisons and the arithmetic used here give the same results
  for both zeros, and only \<open>repr\<close>, which is a parameter of the model, tells them apart.
\<close>

datatype pyfloat = Fin rat | Inf bool | NaN

section \<open>The command manager (\<open>core/command_manager.py\<close>)\<close>

datatype CommandState = QUEUED | EXECUTING | COMPLETED | CANCELLED | FAILED

text \<open>
  \<open>CommandContext\<close>.  The callback is an observer supplied by the caller (the UI passes a
  method that emits a Qt signal); the model records whether one was supplied and logs
  every invocation together with the context as the callback sees it.  The field
  \<open>task\<close> of the dataclass is never assigned and is left out; \<open>timestamp\<close> is the
  reading of \<open>time.time()\<close> at submission.
\<close>

record CommandContext =
  command :: string
  callback :: bool
  timestamp :: rat
  state :: CommandState
  error :: "string option"
  result :: "string option"

text \<open>
  What one run of the handler's async generator \<open>handler.execute_command(cmd)\<close> delivers
  to \<open>_execute_command\<close>: the chunks it yields, in order, and how the iteration ends.
\<close>

datatype stream_end = StreamEnd | StreamRaises py_exception

text \<open>
  The body of the \<open>async for\<close> loop of \<open>_execute_command\<close> for one yielded \<open>result\<close>.
  The state is the context, the local \<open>last_result\<close> and the log of callback
  invocations.  \<open>if result:\<close> is the truth value of a string: it is non-empty.
\<close>

type_synonym exec_state = "CommandContext \<times> string option \<times> CommandContext list"

definition exec_chunk :: "exec_state \<Rightarrow> string \<Rightarrow> exec_state" where
  "exec_chunk s r =
     (case s of (ctx, last_result, cbs) \<Rightarrow>
        let (ctx1, last1) =
              (if r \<noteq> [] then (ctx\<lparr>result := Some r\<rparr>, Some r) else (ctx, last_result))
        in (ctx1, last1, if callback ctx1 then cbs @ [ctx1] else cbs))"

text \<open>
  The end of \<open>_execute_command\<close>: the code after the loop when the stream is exhausted,
  the \<open>except asyncio.CancelledError\<close> clause (which re-raises), or the
  \<open>except Exception\<close> clause.  The result is the exception leaving the coroutine, if
  any, and the final state.
\<close>

definition exec_finish :: "exec_state \<Rightarrow> stream_end \<Rightarrow> py_exception option \<times> exec_state" where
  "exec_finish s e =
     (case s of (ctx, last_result, cbs) \<Rightarrow>
        (case e of
           StreamEnd \<Rightarrow>
             (if last_result = Some ''Command cancelled''
              then (None, ctx\<lparr>state := CANCELLED, error := Some ''Command cancelled by user''\<rparr>,
                    last_result, cbs)
              else (None, ctx\<lparr>state := COMPLETED\<rparr>, last_result, cbs))
         | StreamRaises x \<Rightarrow>
             (if is_Exception x
              then (let ctx1 = ctx\<lparr>state := FAILED, error := Some (exn_str x)\<rparr>
                    in (None, ctx1, last_result, if callback ctx1 then cbs @ [ctx1] else cbs))
              else (let ctx1 = ctx\<lparr>state := CANCELLED, error := Some ''Command cancelled by user''\<rparr>
                    in (Some x, ctx1, last_result, if callback ctx1 then cbs @ [ctx1] else cbs)))))"

definition execute_command_mgr ::
  "CommandContext \<Rightarrow> CommandContext list \<Rightarrow> string list \<Rightarrow> stream_end
     \<Rightarrow> py_exception option \<times> exec_state" where
  "execute_command_mgr ctx cbs chunks e = exec_finish (foldl exec_chunk (ctx, None, cbs) chunks) e"

section \<open>Conversation messages (\<open>claude.py\<close>)\<close>

text \<open>
  Values that arrive as JSON in a tool-use block's \<open>input\<close>, as Python objects: \<open>None\<close>,
  a \<open>bool\<close>, an \<open>int\<close>, a \<open>float\<close>, a \<open>str\<close>, a \<open>list\<close> or a \<open>dict\<close> with string keys.
\<close>

datatype json =
    JNull
  | JBool bool
  | JInt int
  | JFloat pyfloat
  | JStr string
  | JList "json list"
  | JObj "(string \<times> json) list"

text \<open>
  The message dictionaries this program builds.  Every message is
  \<open>{"role": r, "content": [block, ...]}\<close>; a block is a text block, a tool-use block
  (\<open>id\<close>, \<open>name\<close>, \<open>input\<close>) or a tool-result block (\<open>tool_use_id\<close>, \<open>content\<close>);
  the items of a tool result's content are the dictionaries \<open>_execute_tool\<close> returns:
  a base64 screenshot (\<open>"type": "image"\<close>, carrying its data) or a text.
\<close>

datatype result_item = ImageItem string | TextItem string

datatype block =
    Text string
  | ToolUse string string "(string \<times> json) list"
  | ToolResult string "result_item list"

datatype role = User | Assistant

record message =
  role :: role
  content :: "block list"

fun is_image :: "result_item \<Rightarrow> bool" where
  "is_image (ImageItem _) = True"
| "is_image (TextItem _) = False"

subsection \<open>\<open>_maybe_filter_to_n_most_recent_images\<close>\<close>

text \<open>The first two loops: collect the tool-result blocks in message order and count
  the image items in them.\<close>

fun block_images :: "block \<Rightarrow> nat" where
  "block_images (ToolResult _ items) = length (filter is_image items)"
| "block_images _ = 0"

definition total_images :: "message list \<Rightarrow> int" where
  "total_images messages = int (sum_list (map block_images (concat (map content messages))))"

text \<open>
  The removal loop.  The source walks the collected tool-result blocks in order with the
  counter \<open>images_to_remove\<close>, leaves the loop as soon as the counter is not positive, and
  otherwise rebuilds the block's content, skipping an image while the counter is
  positive.  The blocks are the objects inside the messages, so rebuilding one changes
  the message list in place; the model threads the counter through the messages and
  their blocks in the same order and returns the new list.
\<close>

fun remove_items :: "int \<Rightarrow> result_item list \<Rightarrow> int \<times> result_item list" where
  "remove_items n [] = (n, [])"
| "remove_items n (c # cs) =
     (if is_image c \<and> 0 < n then remove_items (n - 1) cs
      else (case remove_items n cs of (n', r) \<Rightarrow> (n', c # r)))"

fun remove_blocks :: "int \<Rightarrow> block list \<Rightarrow> int \<times> block list" where
  "remove_blocks n [] = (n, [])"
| "remove_blocks n (ToolResult i items # bs) =
     (if n \<le> 0 then (n, ToolResult i items # bs)
      else (case remove_items n items of (n1, items') \<Rightarrow>
              (case remove_blocks n1 bs of (n2, bs') \<Rightarrow> (n2, ToolResult i items' # bs'))))"
| "remove_blocks n (b # bs) =
     (case remove_blocks n bs of (n', bs') \<Rightarrow> (n', b # bs'))"

fun remove_messages :: "int \<Rightarrow> message list \<Rightarrow> int \<times> message list" where
  "remove_messages n [] = (n, [])"
| "remove_messages n (m # ms) =
     (case remove_blocks n (content m) of (n1, bs') \<Rightarrow>
        (case remove_messages n1 ms of (n2, ms') \<Rightarrow> (n2, m\<lparr>content := bs'\<rparr> # ms')))"

text \<open>
  The whole function.  \<open>%\<close> is Python's floor modulo, which is \<open>mod\<close> on \<open>int\<close>; a
  threshold of zero raises \<open>ZeroDivisionError\<close> once images have to go.
\<close>

definition maybe_filter_to_n_most_recent_images ::
  "message list \<Rightarrow> int \<Rightarrow> int \<Rightarrow> py_exception + message list" where
  "maybe_filter_to_n_most_recent_images messages images_to_keep min_removal_threshold =
     (let images_to_remove = total_images messages - images_to_keep
      in if images_to_remove \<le> 0 then Inr messages
         else if min_removal_threshold = 0
         then Inl (ZeroDivisionError ''integer modulo by zero'')
         else Inr (snd (remove_messages
                 (images_to_remove - images_to_remove mod min_removal_threshold) messages)))"

text \<open>
  Vocabulary for stating what the filter does: the screenshots of a message list in
  conversation order (oldest first), and the message list with every screenshot taken
  out, which is everything that is not an image.
\<close>

fun block_image_items :: "block \<Rightarrow> result_item list" where
  "block_image_items (ToolResult _ items) = filter is_image items"
| "block_image_items _ = []"

definition images_of :: "message list \<Rightarrow> result_item list" where
  "images_of messages = concat (map block_image_items (concat (map content messages)))"

fun strip_block :: "block \<Rightarrow> block" where
  "strip_block (ToolResult i items) = ToolResult i (filter (\<lambda>c. \<not> is_image c) items)"
| "strip_block b = b"

definition strip_images :: "message list \<Rightarrow> message list" where
  "strip_images messages = map (\<lambda>m. m\<lparr>content := map strip_block (content m)\<rparr>) messages"

section \<open>Python strings and numbers\<close>

text \<open>
  A Python \<open>str\<close> is modelled as a \<open>string\<close>; its characters are the code points below
  256.  \<open>is_space\<close> is \<open>str.isspace\<close> on one character and \<open>strip\<close> is
  \<open>str.strip()\<close>; \<open>lower\<close> is \<open>str.lower()\<close>; \<open>contains t p\<close> is \<open>p in t\<close>.
\<close>

definition is_space :: "char \<Rightarrow> bool" where
  "is_space c = ((of_char c :: nat) \<in> {9, 10, 11, 12, 13, 28, 29, 30, 31, 32, 133, 160})"

definition strip :: "string \<Rightarrow> string" where
  "strip s = rev (dropWhile is_space (rev (dropWhile is_space s)))"

definition lower_char :: "char \<Rightarrow> char" where
  "lower_char c =
     (let n = (of_char c :: nat)
      in if (65 \<le> n \<and> n \<le> 90) \<or> (192 \<le> n \<and> n \<le> 222 \<and> n \<noteq> 215)
         then char_of (n + 32) else c)"

definition lower :: "string \<Rightarrow> string" where
  "lower s = map lower_char s"

fun starts_with :: "string \<Rightarrow> string \<Rightarrow> bool" where
  "starts_with t [] = True"
| "starts_with [] (p # ps) = False"
| "starts_with (c # t) (p # ps) = (c = p \<and> starts_with t ps)"

fun contains :: "string \<Rightarrow> string \<Rightarrow> bool" where
  "contains [] p = (p = [])"
| "contains (c # t) p = (starts_with (c # t) p \<or> contains t p)"

text \<open>\<open>s.split(sep)\<close> for a separator of one character.\<close>

fun split_on :: "char \<Rightarrow> string \<Rightarrow> string list" where
  "split_on sep [] = [[]]"
| "split_on sep (c # cs) =
     (if c = sep then [] # split_on sep cs
      else (case split_on sep cs of [] \<Rightarrow> [[c]] | w # ws \<Rightarrow> (c # w) # ws))"

text \<open>\<open>str(n)\<close> of an integer: its decimal digits.\<close>

function show_nat :: "nat \<Rightarrow> string" where
  "show_nat n =
     (if n < 10 then [char_of (48 + n)] else show_nat (n div 10) @ [char_of (48 + n mod 10)])"
  by pat_completeness auto
termination
  by (relation "measure (\<lambda>n. n)") auto

declare show_nat.simps [simp del]

definition show_int :: "int \<Rightarrow> string" where
  "show_int i = (if i < 0 then CHR ''-'' # show_nat (nat (- i)) else show_nat (nat i))"

text \<open>
  Truth value, type name and \<open>str()\<close> of a JSON value.  \<open>str\<close> of a float, a list or
  a dictionary is Python's \<open>repr\<close> of it, which is taken as the parameter \<open>fmt\<close>.
\<close>

fun truthy :: "json \<Rightarrow> bool" where
  "truthy JNull = False"
| "truthy (JBool b) = b"
| "truthy (JInt i) = (i \<noteq> 0)"
| "truthy (JFloat f) = (f \<noteq> Fin 0)"
| "truthy (JStr s) = (s \<noteq> [])"
| "truthy (JList xs) = (xs \<noteq> [])"
| "truthy (JObj kvs) = (kvs \<noteq> [])"

fun type_name :: "json \<Rightarrow> string" where
  "type_name JNull = ''NoneType''"
| "type_name (JBool _) = ''bool''"
| "type_name (JInt _) = ''int''"
| "type_name (JFloat _) = ''float''"
| "type_name (JStr _) = ''str''"
| "type_name (JList _) = ''list''"
| "type_name (JObj _) = ''dict''"

fun py_str :: "(json \<Rightarrow> string) \<Rightarrow> json \<Rightarrow> string" where
  "py_str fmt JNull = ''None''"
| "py_str fmt (JBool b) = (if b then ''True'' else ''False'')"
| "py_str fmt (JInt i) = show_int i"
| "py_str fmt (JStr s) = s"
| "py_str fmt v = fmt v"

text \<open>\<open>d.get(key)\<close> on the dictionary of a tool input: a missing key reads as \<open>None\<close>.\<close>

definition dict_get :: "(string \<times> json) list \<Rightarrow> string \<Rightarrow> json" where
  "dict_get d k = (case map_of d k of None \<Rightarrow> JNull | Some v \<Rightarrow> v)"

subsection \<open>Floats\<close>

text \<open>
  The arithmetic of \<open>pyfloat\<close>.  \<open>round_double r\<close> is \<open>r\<close> rounded to the nearest number with a 53-bit significand and
  an exponent of at least \<open>-1022\<close> (so subnormal numbers are covered), ties to even;
  \<open>fl64\<close> adds the overflow rule: a rounded magnitude of \<open>2 ^ 1024\<close> or more is an
  infinity.  \<open>ilog2 r\<close> is \<open>\<lfloor>log\<^sub>2 r\<rfloor>\<close> for positive \<open>r\<close>.
\<close>

definition ilog2 :: "rat \<Rightarrow> int" where
  "ilog2 r = (case quotient_of r of (p, q) \<Rightarrow>
       let k = bitlen p - bitlen q in if 2 powi k \<le> r then k else k - 1)"

definition round_half_even :: "rat \<Rightarrow> int" where
  "round_half_even r =
     (let f = \<lfloor>r\<rfloor>; d = r - of_int f
      in if d < 1 / 2 then f else if 1 / 2 < d then f + 1 else if even f then f else f + 1)"

definition round_double :: "rat \<Rightarrow> rat" where
  "round_double r =
     (if r = 0 then 0
      else let e = max (ilog2 \<bar>r\<bar>) (- 1022) - 52
           in of_int (round_half_even (r / 2 powi e)) * 2 powi e)"

definition fl64 :: "rat \<Rightarrow> pyfloat" where
  "fl64 r = (let v = round_double r in if 2 ^ 1024 \<le> \<bar>v\<bar> then Inf (r < 0) else Fin v)"

text \<open>The exponent of the unit in the last place of the double nearest to \<open>r\<close>.\<close>

definition ulp_exp :: "rat \<Rightarrow> int" where
  "ulp_exp r = max (ilog2 \<bar>r\<bar>) (- 1022) - 52"


text \<open>
  The arithmetic of the source.  \<open>a / b\<close> on two \<open>int\<close>s is the correctly rounded
  quotient and raises when it is too large or \<open>b\<close> is zero; an \<open>int\<close> operand of a
  mixed operation is converted first, which raises when it is too large; \<open>*\<close>, \<open>+\<close>
  and \<open>/\<close> on floats follow IEEE 754 (an overflow gives an infinity), except that a
  zero divisor raises; \<open>int(f)\<close> truncates toward zero and raises on an infinity or NaN.
\<close>

definition int_truediv :: "int \<Rightarrow> int \<Rightarrow> py_exception + pyfloat" where
  "int_truediv a b =
     (if b = 0 then Inl (ZeroDivisionError ''division by zero'')
      else (case fl64 (of_int a / of_int b) of
              Fin v \<Rightarrow> Inr (Fin v)
            | _ \<Rightarrow> Inl (OverflowError ''integer division result too large for a float'')))"

definition float_of_int :: "int \<Rightarrow> py_exception + pyfloat" where
  "float_of_int i =
     (case fl64 (of_int i) of
        Fin v \<Rightarrow> Inr (Fin v)
      | _ \<Rightarrow> Inl (OverflowError ''int too large to convert to float''))"

fun float_mul :: "pyfloat \<Rightarrow> pyfloat \<Rightarrow> pyfloat" where
  "float_mul (Fin a) (Fin b) = fl64 (a * b)"
| "float_mul (Inf s) (Fin b) = (if b = 0 then NaN else Inf (s \<noteq> (b < 0)))"
| "float_mul (Fin a) (Inf t) = (if a = 0 then NaN else Inf ((a < 0) \<noteq> t))"
| "float_mul (Inf s) (Inf t) = Inf (s \<noteq> t)"
| "float_mul _ _ = NaN"

fun float_add :: "pyfloat \<Rightarrow> pyfloat \<Rightarrow> pyfloat" where
  "float_add (Fin a) (Fin b) = fl64 (a + b)"
| "float_add (Inf s) (Fin b) = Inf s"
| "float_add (Fin a) (Inf t) = Inf t"
| "float_add (Inf s) (Inf t) = (if s = t then Inf s else NaN)"
| "float_add _ _ = NaN"

fun float_div :: "pyfloat \<Rightarrow> pyfloat \<Rightarrow> py_exception + pyfloat" where
  "float_div (Fin a) (Fin b) =
     (if b = 0 then Inl (ZeroDivisionError ''float division by zero'') else Inr (fl64 (a / b)))"
| "float_div (Inf s) (Fin b) =
     (if b = 0 then Inl (ZeroDivisionError ''float division by zero'')
      else Inr (Inf (s \<noteq> (b < 0))))"
| "float_div (Fin a) (Inf t) = Inr (Fin 0)"
| "float_div NaN (Fin b) =
     (if b = 0 then Inl (ZeroDivisionError ''float division by zero'') else Inr NaN)"
| "float_div _ _ = Inr NaN"

definition float_mul_int :: "pyfloat \<Rightarrow> int \<Rightarrow> py_exception + pyfloat" where
  "float_mul_int f i = (case float_of_int i of Inl e \<Rightarrow> Inl e | Inr g \<Rightarrow> Inr (float_mul f g))"

definition float_add_int :: "pyfloat \<Rightarrow> int \<Rightarrow> py_exception + pyfloat" where
  "float_add_int f i = (case float_of_int i of Inl e \<Rightarrow> Inl e | Inr g \<Rightarrow> Inr (float_add f g))"

definition float_div_int :: "pyfloat \<Rightarrow> int \<Rightarrow> py_exception + pyfloat" where
  "float_div_int f i = (case float_of_int i of Inl e \<Rightarrow> Inl e | Inr g \<Rightarrow> float_div f g)"

text \<open>
  \<open>f - i\<close> on a float and an \<open>int\<close>, and the comparisons \<open>f < i\<close> and \<open>i < f\<close>, which
  Python decides on the exact values.
\<close>

fun float_neg :: "pyfloat \<Rightarrow> pyfloat" where
  "float_neg (Fin a) = Fin (- a)"
| "float_neg (Inf s) = Inf (\<not> s)"
| "float_neg NaN = NaN"

definition float_sub_int :: "pyfloat \<Rightarrow> int \<Rightarrow> py_exception + pyfloat" where
  "float_sub_int f i =
     (case float_of_int i of Inl e \<Rightarrow> Inl e | Inr g \<Rightarrow> Inr (float_add f (float_neg g)))"

fun float_lt_int :: "pyfloat \<Rightarrow> int \<Rightarrow> bool" where
  "float_lt_int (Fin r) i = (r < of_int i)"
| "float_lt_int (Inf s) i = s"
| "float_lt_int NaN i = False"

fun int_lt_float :: "int \<Rightarrow> pyfloat \<Rightarrow> bool" where
  "int_lt_float i (Fin r) = (of_int i < r)"
| "int_lt_float i (Inf s) = (\<not> s)"
| "int_lt_float i NaN = False"

fun int_of_float :: "pyfloat \<Rightarrow> py_exception + int" where
  "int_of_float (Fin v) = Inr (if 0 \<le> v then \<lfloor>v\<rfloor> else \<lceil>v\<rceil>)"
| "int_of_float (Inf _) = Inl (OverflowError ''cannot convert float infinity to integer'')"
| "int_of_float NaN = Inl (ValueError ''cannot convert float NaN to integer'')"

section \<open>The controller (\<open>TankClaudeController\<close>, \<open>claude.py\<close>)\<close>

datatype ScalingSource = COMPUTER | API

record ScalingConfig =
  enabled :: bool
  base_width :: int
  base_height :: int

record CommandConfig =
  history_size :: int
  scaling :: ScalingConfig

record ToolStats =
  success_count :: int
  error_count :: int
  total_calls :: int
  average_duration :: pyfloat

text \<open>
  The fields of the controller that the modelled methods read or write.  \<open>cancelled\<close> is
  \<open>_cancelled\<close>; \<open>initialized\<close> is \<open>_is_initialized\<close>.
\<close>

record controller =
  config :: CommandConfig
  tool_stats :: ToolStats
  offset_x :: int
  offset_y :: int
  screen_width :: int
  screen_height :: int
  history :: "message list"
  cancelled :: bool
  initialized :: bool

subsection \<open>\<open>scale_coordinates\<close>\<close>

text \<open>\<open>(a / b) * c\<close> and \<open>int(f + off)\<close>, the two float expressions of the method.\<close>

definition scaled :: "int \<Rightarrow> int \<Rightarrow> int \<Rightarrow> py_exception + pyfloat" where
  "scaled a b c = (case int_truediv a b of Inl e \<Rightarrow> Inl e | Inr q \<Rightarrow> float_mul_int q c)"

definition int_of_sum :: "pyfloat \<Rightarrow> int \<Rightarrow> py_exception + int" where
  "int_of_sum f off = (case float_add_int f off of Inl e \<Rightarrow> Inl e | Inr g \<Rightarrow> int_of_float g)"

definition clamp_axis :: "int \<Rightarrow> int \<Rightarrow> int \<Rightarrow> int" where
  "clamp_axis v off extent = min (max v off) (off + extent - 1)"

definition scale_coordinates ::
  "controller \<Rightarrow> ScalingSource \<Rightarrow> int \<Rightarrow> int \<Rightarrow> py_exception + (int \<times> int)" where
  "scale_coordinates self source x0 y0 =
     (let x = (if x0 < 0 then 0 else x0);
          y = (if y0 < 0 then 0 else y0)
      in if \<not> enabled (scaling (config self)) then
           (if source = API
            then Inr (clamp_axis (x + offset_x self) (offset_x self) (screen_width self),
                      clamp_axis (y + offset_y self) (offset_y self) (screen_height self))
            else Inr (x, y))
         else
           (let real_w = screen_width self; real_h = screen_height self;
                base_w = base_width (scaling (config self));
                base_h = base_height (scaling (config self))
            in if source = API then
                 (case scaled x base_w real_w of Inl e \<Rightarrow> Inl e | Inr scale_x \<Rightarrow>
                 (case scaled y base_h real_h of Inl e \<Rightarrow> Inl e | Inr scale_y \<Rightarrow>
                 (case int_of_sum scale_x (offset_x self) of Inl e \<Rightarrow> Inl e | Inr final_x \<Rightarrow>
                 (case int_of_sum scale_y (offset_y self) of Inl e \<Rightarrow> Inl e | Inr final_y \<Rightarrow>
                    Inr (clamp_axis final_x (offset_x self) real_w,
                         clamp_axis final_y (offset_y self) real_h)))))
               else
                 (let rx0 = x - offset_x self; ry0 = y - offset_y self;
                      rx1 = (if rx0 < 0 then 0 else rx0);
                      ry1 = (if ry0 < 0 then 0 else ry0);
                      rx = (if real_w < rx1 then real_w else rx1);
                      ry = (if real_h < ry1 then real_h else ry1)
                  in (case scaled rx real_w base_w of Inl e \<Rightarrow> Inl e | Inr scaled_x \<Rightarrow>
                     (case scaled ry real_h base_h of Inl e \<Rightarrow> Inl e | Inr scaled_y \<Rightarrow>
                     (case int_of_float scaled_x of Inl e \<Rightarrow> Inl e | Inr lx \<Rightarrow>
                     (case int_of_float scaled_y of Inl e \<Rightarrow> Inl e | Inr ly \<Rightarrow>
                       Inr (lx, ly))))))))"

text \<open>
  The method is annotated for \<open>int\<close> arguments, and \<open>scale_coordinates\<close> above is the
  method on them.  \<open>_execute_tool\<close> passes on whatever numbers the tool input holds, so
  \<open>scale_coordinates_num\<close> is the same method on arguments that are \<open>int\<close>s or floats,
  with the operations dispatched as Python does: \<open>x < i\<close> and \<open>i < x\<close> are exact,
  \<open>x + i\<close> and \<open>x - i\<close> stay integers on an \<open>int\<close> and are float operations otherwise,
  \<open>x / i\<close> is always a float, \<open>max(v, i)\<close> is \<open>i\<close> if \<open>i > v\<close> and \<open>v\<close> otherwise,
  \<open>min(v, i)\<close> is \<open>i\<close> if \<open>i < v\<close> and \<open>v\<close> otherwise.
\<close>

datatype pynum = PInt int | PFloat pyfloat

fun num_lt_int :: "pynum \<Rightarrow> int \<Rightarrow> bool" where
  "num_lt_int (PInt a) i = (a < i)"
| "num_lt_int (PFloat f) i = float_lt_int f i"

fun int_lt_num :: "int \<Rightarrow> pynum \<Rightarrow> bool" where
  "int_lt_num i (PInt a) = (i < a)"
| "int_lt_num i (PFloat f) = int_lt_float i f"

fun num_add_int :: "pynum \<Rightarrow> int \<Rightarrow> py_exception + pynum" where
  "num_add_int (PInt a) i = Inr (PInt (a + i))"
| "num_add_int (PFloat f) i =
     (case float_add_int f i of Inl e \<Rightarrow> Inl e | Inr g \<Rightarrow> Inr (PFloat g))"

fun num_sub_int :: "pynum \<Rightarrow> int \<Rightarrow> py_exception + pynum" where
  "num_sub_int (PInt a) i = Inr (PInt (a - i))"
| "num_sub_int (PFloat f) i =
     (case float_sub_int f i of Inl e \<Rightarrow> Inl e | Inr g \<Rightarrow> Inr (PFloat g))"

fun num_truediv_int :: "pynum \<Rightarrow> int \<Rightarrow> py_exception + pyfloat" where
  "num_truediv_int (PInt a) i = int_truediv a i"
| "num_truediv_int (PFloat f) i = float_div_int f i"

definition py_max_int :: "pynum \<Rightarrow> int \<Rightarrow> pynum" where
  "py_max_int v i = (if num_lt_int v i then PInt i else v)"

definition py_min_int :: "pynum \<Rightarrow> int \<Rightarrow> pynum" where
  "py_min_int v i = (if int_lt_num i v then PInt i else v)"

definition scaled_num :: "pynum \<Rightarrow> int \<Rightarrow> int \<Rightarrow> py_exception + pyfloat" where
  "scaled_num a b c =
     (case num_truediv_int a b of Inl e \<Rightarrow> Inl e | Inr q \<Rightarrow> float_mul_int q c)"

definition scale_coordinates_num ::
  "controller \<Rightarrow> ScalingSource \<Rightarrow> pynum \<Rightarrow> pynum \<Rightarrow> py_exception + (pynum \<times> pynum)" where
  "scale_coordinates_num self source x0 y0 =
     (let x = (if num_lt_int x0 0 then PInt 0 else x0);
          y = (if num_lt_int y0 0 then PInt 0 else y0)
      in if \<not> enabled (scaling (config self)) then
           (if source = API
            then (case num_add_int x (offset_x self) of Inl e \<Rightarrow> Inl e | Inr final_x \<Rightarrow>
                 (case num_add_int y (offset_y self) of Inl e \<Rightarrow> Inl e | Inr final_y \<Rightarrow>
                    Inr (py_min_int (py_max_int final_x (offset_x self))
                           (offset_x self + screen_width self - 1),
                         py_min_int (py_max_int final_y (offset_y self))
                           (offset_y self + screen_height self - 1))))
            else Inr (x, y))
         else
           (let real_w = screen_width self; real_h = screen_height self;
                base_w = base_width (scaling (config self));
                base_h = base_height (scaling (config self))
            in if source = API then
                 (case scaled_num x base_w real_w of Inl e \<Rightarrow> Inl e | Inr scale_x \<Rightarrow>
                 (case scaled_num y base_h real_h of Inl e \<Rightarrow> Inl e | Inr scale_y \<Rightarrow>
                 (case int_of_sum scale_x (offset_x self) of Inl e \<Rightarrow> Inl e | Inr final_x \<Rightarrow>
                 (case int_of_sum scale_y (offset_y self) of Inl e \<Rightarrow> Inl e | Inr final_y \<Rightarrow>
                    Inr (PInt (clamp_axis final_x (offset_x self) real_w),
                         PInt (clamp_axis final_y (offset_y self) real_h))))))
               else
                 (case num_sub_int x (offset_x self) of Inl e \<Rightarrow> Inl e | Inr rx0 \<Rightarrow>
                 (case num_sub_int y (offset_y self) of Inl e \<Rightarrow> Inl e | Inr ry0 \<Rightarrow>
                 (let rx1 = (if num_lt_int rx0 0 then PInt 0 else rx0);
                      ry1 = (if num_lt_int ry0 0 then PInt 0 else ry0);
                      rx = (if int_lt_num real_w rx1 then PInt real_w else rx1);
                      ry = (if int_lt_num real_h ry1 then PInt real_h else ry1)
                  in (case scaled_num rx real_w base_w of Inl e \<Rightarrow> Inl e | Inr scaled_x \<Rightarrow>
                     (case scaled_num ry real_h base_h of Inl e \<Rightarrow> Inl e | Inr scaled_y \<Rightarrow>
                     (case int_of_float scaled_x of Inl e \<Rightarrow> Inl e | Inr lx \<Rightarrow>
                     (case int_of_float scaled_y of Inl e \<Rightarrow> Inl e | Inr ly \<Rightarrow>
                       Inr (PInt lx, PInt ly))))))))))"

subsection \<open>\<open>_execute_tool\<close>\<close>

text \<open>
  The desktop is reached through \<open>pyautogui\<close> and \<open>ImageGrab\<close>.  Every call that acts
  on it is recorded, with its arguments, in a trace; calls are taken to return normally.
  (\<open>time.sleep\<close> pauses are not recorded.)  The target of \<open>moveTo\<close> is the pair that
  \<open>scale_coordinates\<close> returned, so it is a pair of numbers.
\<close>

datatype os_event =
    Grab int int int int
  | MoveTo pynum pynum
  | MouseDown int int
  | MouseUp
  | Click
  | RightClick
  | MiddleClick
  | DoubleClick
  | KeyDown string
  | KeyUp string
  | Typewrite json

text \<open>
  What the environment decides during one call: the elapsed time \<open>time.time() -
  start_time\<close> read on success (a finite float), the pointer position that
  \<open>pyautogui.position()\<close> reports, and the outcome of saving and encoding the screenshot
  in \<open>_capture_screenshot\<close> (the base64 text, or the exception it re-raises; an
  \<open>asyncio\<close> cancellation arriving during its initial sleep is the outcome
  \<open>Inl (CancelledError ...)\<close>).
\<close>

record tool_env =
  elapsed :: rat
  pointer :: "int \<times> int"
  capture :: "py_exception + string"

definition update_tool_success_stats :: "controller \<Rightarrow> rat \<Rightarrow> py_exception + controller" where
  "update_tool_success_stats self duration =
     (let st = tool_stats self;
          sc = success_count st + 1;
          self1 = self\<lparr>tool_stats := st\<lparr>success_count := sc\<rparr>\<rparr>;
          old_avg = average_duration st
      in (case float_mul_int old_avg (sc - 1) of Inl e \<Rightarrow> Inl e | Inr weighted \<Rightarrow>
         (case float_div_int (float_add weighted (Fin duration)) sc of Inl e \<Rightarrow> Inl e
          | Inr avg \<Rightarrow>
              Inr (self1\<lparr>tool_stats := (tool_stats self1)\<lparr>average_duration := avg\<rparr>\<rparr>))))"

text \<open>
  \<open>_capture_screenshot\<close>: the bounding box is grabbed, then the image is scaled,
  saved and encoded; the text or the exception comes from the environment.
\<close>

definition capture_screenshot ::
  "tool_env \<Rightarrow> controller \<Rightarrow> os_event list \<Rightarrow> (py_exception + string) \<times> os_event list" where
  "capture_screenshot env self trace =
     (case capture env of
        Inl e \<Rightarrow> (if is_Exception e
                  then (Inl e, trace @ [Grab (offset_x self) (offset_y self)
                                         (offset_x self + screen_width self)
                                         (offset_y self + screen_height self)])
                  else (Inl e, trace))
      | Inr data \<Rightarrow> (Inr data, trace @ [Grab (offset_x self) (offset_y self)
                                         (offset_x self + screen_width self)
                                         (offset_y self + screen_height self)]))"

text \<open>
  Reading \<open>coordinate[0]\<close> and \<open>coordinate[1]\<close> of a value that passed the test
  \<open>not coordinate or len(coordinate) != 2\<close>, and using an element as an argument of
  \<open>scale_coordinates\<close>, whose first statements compare it with 0: that works for a
  number (\<open>bool\<close> is a subclass of \<open>int\<close>) and raises for anything else.  \<open>str\<close> of a
  number in the result text is its decimal form for an \<open>int\<close> and \<open>repr\<close> for a float.
\<close>

fun py_len :: "json \<Rightarrow> py_exception + nat" where
  "py_len (JStr s) = Inr (length s)"
| "py_len (JList xs) = Inr (length xs)"
| "py_len (JObj kvs) = Inr (length kvs)"
| "py_len v = Inl (TypeError (''object of type '' @ [CHR 0x27] @ type_name v @ [CHR 0x27]
                              @ '' has no len()''))"

fun pair_items :: "json \<Rightarrow> py_exception + (json \<times> json)" where
  "pair_items (JList [a, b]) = Inr (a, b)"
| "pair_items (JStr [a, b]) = Inr (JStr [a], JStr [b])"
| "pair_items v = Inl (KeyError ''0'')"

fun as_num :: "json \<Rightarrow> py_exception + pynum" where
  "as_num (JInt i) = Inr (PInt i)"
| "as_num (JBool b) = Inr (PInt (if b then 1 else 0))"
| "as_num (JFloat f) = Inr (PFloat f)"
| "as_num v = Inl (TypeError ([CHR 0x27] @ ''<'' @ [CHR 0x27]
                     @ '' not supported between instances of '' @ [CHR 0x27] @ type_name v
                     @ [CHR 0x27] @ '' and '' @ [CHR 0x27] @ ''int'' @ [CHR 0x27]))"

fun show_num :: "(json \<Rightarrow> string) \<Rightarrow> pynum \<Rightarrow> string" where
  "show_num fmt (PInt i) = show_int i"
| "show_num fmt (PFloat f) = fmt (JFloat f)"

text \<open>\<open>_chunk_string\<close> on a string, and the same slicing on a list.\<close>

function chunk_list :: "'a list \<Rightarrow> nat \<Rightarrow> 'a list list" where
  "chunk_list s n =
     (if s = [] \<or> n = 0 then [] else take n s # chunk_list (drop n s) n)"
  by pat_completeness auto
termination
  by (relation "measure (\<lambda>(s, n). length s)") auto

declare chunk_list.simps [simp del]

text \<open>
  The body of the \<open>try\<close> block.  The result is the content of the returned
  \<open>tool_result\<close> dictionary, or the exception raised, with the controller (its
  statistics) and the trace as they stand at that point.
\<close>

definition tool_success ::
  "tool_env \<Rightarrow> controller \<Rightarrow> os_event list \<Rightarrow> result_item list
     \<Rightarrow> (py_exception + result_item list) \<times> controller \<times> os_event list" where
  "tool_success env self trace items =
     (case update_tool_success_stats self (elapsed env) of
        Inl e \<Rightarrow> (Inl e, self\<lparr>tool_stats := (tool_stats self)
                              \<lparr>success_count := success_count (tool_stats self) + 1\<rparr>\<rparr>, trace)
      | Inr self' \<Rightarrow> (Inr items, self', trace))"

definition tool_body ::
  "(json \<Rightarrow> string) \<Rightarrow> tool_env \<Rightarrow> controller \<Rightarrow> os_event list \<Rightarrow> (string \<times> json) list
     \<Rightarrow> (py_exception + result_item list) \<times> controller \<times> os_event list" where
  "tool_body fmt env self trace kwargs =
     (let action = dict_get kwargs ''action'' in
      if \<not> truthy action then (Inl (ValueError ''No action specified in tool input''), self, trace)
      else if action = JStr ''screenshot'' then
        (case capture_screenshot env self trace of
           (Inl e, trace1) \<Rightarrow> (Inl e, self, trace1)
         | (Inr data, trace1) \<Rightarrow> tool_success env self trace1 [ImageItem data])
      else if action = JStr ''mouse_move'' \<or> action = JStr ''left_click_drag'' then
        (let coordinate = dict_get kwargs ''coordinate'';
             invalid = Inl (ValueError (''Invalid coordinate for '' @ py_str fmt action @ ''.''))
         in if \<not> truthy coordinate then (invalid, self, trace)
            else (case py_len coordinate of Inl e \<Rightarrow> (Inl e, self, trace) | Inr n \<Rightarrow>
              if n \<noteq> 2 then (invalid, self, trace)
              else (case pair_items coordinate of Inl e \<Rightarrow> (Inl e, self, trace)
               | Inr (c0, c1) \<Rightarrow>
               (case as_num c0 of Inl e \<Rightarrow> (Inl e, self, trace) | Inr x0 \<Rightarrow>
               (case as_num c1 of Inl e \<Rightarrow> (Inl e, self, trace) | Inr y0 \<Rightarrow>
               (case scale_coordinates_num self API x0 y0 of Inl e \<Rightarrow> (Inl e, self, trace)
                | Inr (x, y) \<Rightarrow>
                    if action = JStr ''mouse_move''
                    then tool_success env self (trace @ [MoveTo x y])
                           [TextItem (''Moved mouse to ('' @ show_num fmt x @ '', ''
                                      @ show_num fmt y @ '')'')]
                    else (case pointer env of (startx, starty) \<Rightarrow>
                           tool_success env self
                             (trace @ [MouseDown startx starty, MoveTo x y, MouseUp])
                             [TextItem (''Dragged mouse from ('' @ show_int startx @ '', ''
                                @ show_int starty @ '') to ('' @ show_num fmt x @ '', ''
                                @ show_num fmt y @ '')'')])))))))
      else if action \<in> {JStr ''left_click'', JStr ''right_click'', JStr ''middle_click'',
                         JStr ''double_click''} then
        tool_success env self
          (trace @ [if action = JStr ''left_click'' then Click
                    else if action = JStr ''right_click'' then RightClick
                    else if action = JStr ''middle_click'' then MiddleClick
                    else DoubleClick])
          [TextItem (''Performed '' @ py_str fmt action)]
      else if action = JStr ''key'' \<or> action = JStr ''type'' then
        (let text = dict_get kwargs ''text'' in
         if \<not> truthy text
         then (Inl (ValueError ''No text provided for keyboard action.''), self, trace)
         else if action = JStr ''key'' then
           (case text of
              JStr s \<Rightarrow>
                (let keys = map (\<lambda>k. lower (strip k)) (split_on CHR ''+'' s)
                 in tool_success env self (trace @ map KeyDown keys @ map KeyUp (rev keys))
                      [TextItem (''Input text: '' @ s)])
            | _ \<Rightarrow> (Inl (AttributeError ([CHR 0x27] @ type_name text @ [CHR 0x27]
                          @ '' object has no attribute '' @ [CHR 0x27] @ ''split''
                          @ [CHR 0x27])), self, trace))
         else
           (case py_len text of Inl e \<Rightarrow> (Inl e, self, trace) | Inr _ \<Rightarrow>
            (case text of
              JStr s \<Rightarrow> tool_success env self (trace @ map (\<lambda>c. Typewrite (JStr c)) (chunk_list s 50))
                          [TextItem (''Input text: '' @ s)]
            | JList xs \<Rightarrow> tool_success env self
                          (trace @ map (\<lambda>c. Typewrite (JList c)) (chunk_list xs 50))
                          [TextItem (''Input text: '' @ py_str fmt text)]
            | _ \<Rightarrow> (Inl (TypeError (''unhashable type: '' @ [CHR 0x27] @ ''slice''
                              @ [CHR 0x27])), self, trace))))
      else if action = JStr ''cursor_position'' then
        (case pointer env of (real_x, real_y) \<Rightarrow>
           (case scale_coordinates self COMPUTER real_x real_y of
              Inl e \<Rightarrow> (Inl e, self, trace)
            | Inr (scaled_x, scaled_y) \<Rightarrow>
                tool_success env self trace
                  [TextItem (''Cursor position: ('' @ show_int scaled_x @ '', ''
                             @ show_int scaled_y @ '')'')]))
      else (Inl (ValueError (''Unknown action: '' @ py_str fmt action)), self, trace))"

text \<open>
  \<open>_execute_tool\<close>, called as \<open>self._execute_tool(**input)\<close>.  The parameters are \<open>self\<close>
  and \<open>**kwargs\<close>: an input with the key \<open>self\<close> cannot be bound, and the call raises a
  \<open>TypeError\<close> before the body is entered.  Otherwise: count the call, run the body,
  and in the \<open>except Exception\<close> clause count the error before re-raising.
\<close>

definition execute_tool ::
  "(json \<Rightarrow> string) \<Rightarrow> tool_env \<Rightarrow> controller \<Rightarrow> os_event list \<Rightarrow> (string \<times> json) list
     \<Rightarrow> (py_exception + result_item list) \<times> controller \<times> os_event list" where
  "execute_tool fmt env self trace kwargs =
     (if ''self'' \<in> set (map fst kwargs)
      then (Inl (TypeError (''TankClaudeController._execute_tool() got multiple values ''
                            @ ''for argument '' @ [CHR 0x27] @ ''self'' @ [CHR 0x27])),
            self, trace)
      else
       (let self1 = self\<lparr>tool_stats := (tool_stats self)
                           \<lparr>total_calls := total_calls (tool_stats self) + 1\<rparr>\<rparr>
        in case tool_body fmt env self1 trace kwargs of
             (Inr items, self2, trace2) \<Rightarrow> (Inr items, self2, trace2)
           | (Inl e, self2, trace2) \<Rightarrow>
               if is_Exception e
               then (Inl e, self2\<lparr>tool_stats := (tool_stats self2)
                                   \<lparr>error_count := error_count (tool_stats self2) + 1\<rparr>\<rparr>, trace2)
               else (Inl e, self2, trace2)))"

subsection \<open>\<open>cancel_current\<close> of the controller\<close>

text \<open>Python's slices \<open>xs[:n]\<close> and \<open>xs[-n:]\<close> for any integer \<open>n\<close>.\<close>

definition slice_to :: "'a list \<Rightarrow> int \<Rightarrow> 'a list" where
  "slice_to xs n = (if 0 \<le> n then take (nat n) xs else take (length xs - nat (- n)) xs)"

definition slice_last :: "'a list \<Rightarrow> int \<Rightarrow> 'a list" where
  "slice_last xs n = (if 0 < n then drop (length xs - nat n) xs else drop (nat (- n)) xs)"

text \<open>
  The method sets the flag, truncates the history and then raises
  \<open>CancelledError("Command cancelled by user")\<close>: it never returns normally.
\<close>

definition controller_cancel_current :: "controller \<Rightarrow> py_exception option \<times> controller" where
  "controller_cancel_current self =
     (Some (CancelledError ''Command cancelled by user''),
      self\<lparr>cancelled := True,
            history := slice_to (history self) (history_size (config self))\<rparr>)"

subsection \<open>\<open>_process_message_loop\<close>\<close>

text \<open>
  A block of a model response is a \<open>BetaTextBlock\<close>, a \<open>BetaToolUseBlock\<close> (\<open>id\<close>,
  \<open>name\<close>, \<open>input\<close>) or something else, which the loop skips.

  The remote model and the other coroutines are the environment of the loop.  A
  \<open>turn\<close> is what one iteration meets: whether \<open>cancel_current\<close> of the controller has
  run by the time the flag is tested at the top of the iteration, and what
  \<open>client.beta.messages.create\<close> does, an exception or the blocks of the response; each
  block comes with whether \<open>cancel_current\<close> has run by the time the flag is tested
  before that block, and with the environment of the tool call the block may lead to.
  The script of a run is the list of its turns; when the script is used up the loop is
  still waiting for a response.
\<close>

datatype content_block =
    BetaTextBlock string
  | BetaToolUseBlock string string "(string \<times> json) list"
  | OtherBlock

record block_env =
  cancel_seen :: bool
  tool :: tool_env

record turn =
  cancel_first :: bool
  response :: "py_exception + (content_block \<times> block_env) list"

text \<open>
  The state of a run: the local list \<open>messages\<close>, the controller, the desktop trace,
  the chunks yielded so far and the number of requests sent to the model.
\<close>

record loop_state =
  messages :: "message list"
  ctl :: controller
  trace :: "os_event list"
  out :: "string list"
  api_calls :: nat

datatype loop_end =
    EndCompleted
  | EndLimit
  | EndError
  | EndRaised py_exception
  | AwaitingResponse

definition is_completion :: "string \<Rightarrow> bool" where
  "is_completion text =
     (contains (lower text) ''completed'' \<or> contains (lower text) ''finished''
      \<or> contains (lower text) ''done'' \<or> contains (lower text) ''task accomplished'')"

definition observe_cancel :: "bool \<Rightarrow> loop_state \<Rightarrow> loop_state" where
  "observe_cancel seen s = (if seen then s\<lparr>ctl := snd (controller_cancel_current (ctl s))\<rparr> else s)"

text \<open>The \<open>for content in response.content\<close> loop, with the two local flags
  \<open>has_tool_use\<close> and \<open>response_complete\<close>.\<close>

fun process_blocks ::
  "(json \<Rightarrow> string) \<Rightarrow> loop_state \<Rightarrow> bool \<Rightarrow> bool \<Rightarrow> (content_block \<times> block_env) list
     \<Rightarrow> py_exception option \<times> loop_state \<times> bool \<times> bool" where
  "process_blocks fmt s has_tool_use response_complete [] =
     (None, s, has_tool_use, response_complete)"
| "process_blocks fmt s has_tool_use response_complete ((b, env) # rest) =
     (let s0 = observe_cancel (cancel_seen env) s in
      if cancelled (ctl s0) then (Some (CancelledError []), s0, has_tool_use, response_complete)
      else
        (case b of
           BetaTextBlock text \<Rightarrow>
             process_blocks fmt
               (s0\<lparr>messages := messages s0 @ [\<lparr>role = Assistant, content = [Text text]\<rparr>],
                    out := out s0 @ [text]\<rparr>)
               has_tool_use (response_complete \<or> is_completion text) rest
         | BetaToolUseBlock i name input \<Rightarrow>
             (let s1 = s0\<lparr>out := out s0 @ [''Tool Use: '' @ name @ [CHR 0x0A] @ ''Input: ''
                                              @ fmt (JObj input)]\<rparr>
              in case execute_tool fmt (tool env) (ctl s1) (trace s1) input of
                   (Inr items, self', trace') \<Rightarrow>
                     process_blocks fmt
                       (s1\<lparr>ctl := self', trace := trace',
                            messages := messages s1 @
                              [\<lparr>role = Assistant, content = [ToolUse i name input]\<rparr>,
                               \<lparr>role = User, content = [ToolResult i items]\<rparr>],
                            out := out s1 @ [''Tool executed: ''
                                             @ py_str fmt (dict_get input ''action'')]\<rparr>)
                       True response_complete rest
                 | (Inl e, self', trace') \<Rightarrow>
                     if is_Exception e then
                       process_blocks fmt
                         (s1\<lparr>ctl := self', trace := trace',
                              out := out s1 @ [''Tool execution error: '' @ exn_str e],
                              messages := messages s1 @
                                [\<lparr>role = User,
                                  content = [Text (''Tool execution error: '' @ exn_str e)]\<rparr>]\<rparr>)
                         True response_complete rest
                     else (Some e, s1\<lparr>ctl := self', trace := trace'\<rparr>, True, response_complete))
         | OtherBlock \<Rightarrow> process_blocks fmt s0 has_tool_use response_complete rest))"

text \<open>
  One iteration of the \<open>while True\<close> loop; \<open>None\<close> means that the loop goes on.
  \<open>EndCompleted\<close> is the \<open>break\<close> after the test
  \<open>not has_tool_use and response_complete\<close>, \<open>EndLimit\<close> the one after the warning,
  \<open>EndError\<close> the one in the \<open>except Exception\<close> clause; \<open>EndRaised\<close> is an exception
  that leaves the generator, which only a \<open>CancelledError\<close> does.
\<close>

definition loop_iteration ::
  "(json \<Rightarrow> string) \<Rightarrow> loop_state \<Rightarrow> turn \<Rightarrow> loop_end option \<times> loop_state" where
  "loop_iteration fmt s t =
     (let s0 = observe_cancel (cancel_first t) s in
      if cancelled (ctl s0) then (Some (EndRaised (CancelledError [])), s0)
      else
        (case maybe_filter_to_n_most_recent_images (messages s0) 2 2 of
           Inl e \<Rightarrow> (Some EndError, s0\<lparr>out := out s0 @ [''Error: '' @ exn_str e]\<rparr>)
         | Inr ms1 \<Rightarrow>
             (let ms2 = (if ms1 \<noteq> [] \<and> role (last ms1) = Assistant then butlast ms1 else ms1);
                  s1 = s0\<lparr>messages := ms2, api_calls := api_calls s0 + 1\<rparr>
              in case response t of
                   Inl e \<Rightarrow>
                     if is_Exception e
                     then (Some EndError, s1\<lparr>out := out s1 @ [''Error: '' @ exn_str e]\<rparr>)
                     else (Some (EndRaised e), s1)
                 | Inr blocks \<Rightarrow>
                     (case process_blocks fmt s1 False False blocks of
                        (Some e, s2, has_tool_use, response_complete) \<Rightarrow>
                          (Some (EndRaised e), s2)
                      | (None, s2, has_tool_use, response_complete) \<Rightarrow>
                          if \<not> has_tool_use \<and> response_complete then (Some EndCompleted, s2)
                          else if history_size (config (ctl s2)) * 10 < int (length (messages s2))
                          then (Some EndLimit,
                                s2\<lparr>out := out s2 @
                                  [''Warning: message limit reached. Terminating conversation.'']\<rparr>)
                          else (None, s2)))))"

text \<open>The loop over a script; \<open>AwaitingResponse\<close> when the script is used up.\<close>

fun process_message_loop ::
  "(json \<Rightarrow> string) \<Rightarrow> loop_state \<Rightarrow> turn list \<Rightarrow> loop_end \<times> loop_state" where
  "process_message_loop fmt s [] = (AwaitingResponse, s)"
| "process_message_loop fmt s (t # ts) =
     (case loop_iteration fmt s t of
        (Some e, s') \<Rightarrow> (e, s')
      | (None, s') \<Rightarrow> process_message_loop fmt s' ts)"





subsection \<open>\<open>execute_command\<close> of the controller\<close>

text \<open>
  How a run of an async generator ends for its consumer: it returns, it raises, or
  (when the script is used up) it is still suspended.
\<close>

datatype gen_end = GenReturn | GenRaise py_exception | GenPending

text \<open>\<open>init_session\<close>; \<open>fail\<close> is the message of the exception the construction of the
  client raises, if it does.\<close>

definition init_session :: "string option \<Rightarrow> controller \<Rightarrow> py_exception option \<times> controller" where
  "init_session fail self =
     (if initialized self then (None, self)
      else (case fail of
              None \<Rightarrow> (None, self\<lparr>initialized := True\<rparr>)
            | Some msg \<Rightarrow> (Some (RuntimeError (''Session initialization failed: '' @ msg)), self)))"

definition execute_command ::
  "(json \<Rightarrow> string) \<Rightarrow> string option \<Rightarrow> controller \<Rightarrow> os_event list \<Rightarrow> string \<Rightarrow> turn list
     \<Rightarrow> string list \<times> gen_end \<times> loop_state" where
  "execute_command fmt fail self tr cmd script =
     (if strip cmd = []
      then ([], GenReturn, \<lparr>messages = [], ctl = self, trace = tr, out = [], api_calls = 0\<rparr>)
      else
        (case init_session fail self of
           (Some e, self1) \<Rightarrow>
             ([''Command execution error: '' @ exn_str e], GenReturn,
              \<lparr>messages = [], ctl = self1, trace = tr, out = [], api_calls = 0\<rparr>)
         | (None, self1) \<Rightarrow>
             (let self2 = self1\<lparr>cancelled := False\<rparr>;
                  s0 = \<lparr>messages = history self2 @
                                     [\<lparr>role = User, content = [Text (strip cmd)]\<rparr>],
                        ctl = self2, trace = tr, out = [], api_calls = 0\<rparr>
              in case process_message_loop fmt s0 script of
                   (EndRaised e, s) \<Rightarrow>
                     if is_Exception e
                     then (filter (\<lambda>r. r \<noteq> []) (out s)
                             @ [''Command execution error: '' @ exn_str e], GenReturn, s)
                     else (filter (\<lambda>r. r \<noteq> []) (out s) @ [''Command cancelled''], GenRaise e, s)
                 | (AwaitingResponse, s) \<Rightarrow> (filter (\<lambda>r. r \<noteq> []) (out s), GenPending, s)
                 | (_, s) \<Rightarrow>
                     (filter (\<lambda>r. r \<noteq> []) (out s), GenReturn,
                      s\<lparr>ctl := (ctl s)\<lparr>history :=
                              slice_last (messages s) (history_size (config (ctl s)))\<rparr>\<rparr>))))"

section \<open>The handler (\<open>TankHandler\<close>, \<open>core/computer_use_tank.py\<close>)\<close>

record tank_handler =
  tank_controller :: controller
  tank_initialized :: bool
  tank_tool_stats :: "(string \<times> json) list"

text \<open>
  \<open>cancel_current\<close>: the statement after the call of the controller's method and the
  \<open>except Exception\<close> clause around both.  A \<open>CancelledError\<close> passes through the
  clause.
\<close>

definition tank_cancel_current :: "tank_handler \<Rightarrow> py_exception option \<times> tank_handler" where
  "tank_cancel_current h =
     (case controller_cancel_current (tank_controller h) of
        (Some e, c) \<Rightarrow> (Some e, h\<lparr>tank_controller := c\<rparr>)
      | (None, c) \<Rightarrow> (None, h\<lparr>tank_controller := c, tank_tool_stats := []\<rparr>))"

definition tank_init_session :: "string option \<Rightarrow> tank_handler \<Rightarrow> py_exception option \<times> tank_handler" where
  "tank_init_session fail h =
     (case init_session fail (tank_controller h) of
        (Some e, c) \<Rightarrow>
          (Some (RuntimeError (''Session initialization failed: '' @ exn_str e)),
           h\<lparr>tank_controller := c\<rparr>)
      | (None, c) \<Rightarrow> (None, h\<lparr>tank_controller := c, tank_initialized := True\<rparr>))"

text \<open>
  \<open>execute_command\<close>: every chunk of the controller is stripped and passed on unless it
  is empty.  (The test \<open>asyncio.current_task().cancelled()\<close> is false in a running
  task, and the hash that guards against repeats includes the clock reading, which
  differs between two chunks because the generator sleeps before each yield.)  A
  \<open>CancelledError\<close> from the controller is answered with the marker chunk and a
  normal return, any other exception with an error chunk.
\<close>

definition tank_execute_command ::
  "(json \<Rightarrow> string) \<Rightarrow> string option \<Rightarrow> tank_handler \<Rightarrow> os_event list \<Rightarrow> string \<Rightarrow> turn list
     \<Rightarrow> string list \<times> gen_end \<times> tank_handler \<times> os_event list \<times> nat" where
  "tank_execute_command fmt fail h tr cmd script =
     (case (if tank_initialized h then (None, h) else tank_init_session fail h) of
        (Some e, h1) \<Rightarrow> ([''Command execution error: '' @ exn_str e], GenReturn, h1, tr, 0)
      | (None, h1) \<Rightarrow>
          (case execute_command fmt fail (tank_controller h1) tr (strip cmd) script of
             (chunks, e, s) \<Rightarrow>
               (let cleaned = filter (\<lambda>r. r \<noteq> []) (map strip chunks);
                    h2 = h1\<lparr>tank_controller := ctl s\<rparr>
                in case e of
                     GenReturn \<Rightarrow> (cleaned, GenReturn, h2, trace s, api_calls s)
                   | GenPending \<Rightarrow> (cleaned, GenPending, h2, trace s, api_calls s)
                   | GenRaise x \<Rightarrow>
                       if is_Exception x
                       then (cleaned @ [''Command execution error: '' @ exn_str x], GenReturn,
                             h2, trace s, api_calls s)
                       else (cleaned @ [''Command cancelled''], GenReturn,
                             h2, trace s, api_calls s))))"


section \<open>The configuration built by \<open>TankHandler.__init__\<close>\<close>

text \<open>
  The controller as the handler constructs it when no monitor information is available
  and the environment gives no size: logical resolution 1366 x 768 with scaling enabled,
  a history of 10 messages, the fallback screen of 1920 x 1080 at offset (0, 0), empty
  statistics and history.
\<close>

definition tank_controller_init :: controller where
  "tank_controller_init =
     \<lparr>config = \<lparr>history_size = 10,
                 scaling = \<lparr>enabled = True, base_width = 1366, base_height = 768\<rparr>\<rparr>,
      tool_stats = \<lparr>success_count = 0, error_count = 0, total_calls = 0,
                     average_duration = Fin 0\<rparr>,
      offset_x = 0, offset_y = 0, screen_width = 1920, screen_height = 1080,
      history = [], cancelled = False, initialized = False\<rparr>"

definition tank_handler_init :: tank_handler where
  "tank_handler_init =
     \<lparr>tank_controller = tank_controller_init, tank_initialized = False, tank_tool_stats = []\<rparr>"

text \<open>An environment for one tool call, and a stand-in for \<open>repr\<close> of containers.\<close>

definition quiet_env :: tool_env where
  "quiet_env = \<lparr>elapsed = 1 / 4, pointer = (100, 100), capture = Inr ''iVBORw0KGgo=''\<rparr>"

definition no_repr :: "json \<Rightarrow> string" where
  "no_repr v = ''...''"

section \<open>Example runs of the loop\<close>









definition final_turn :: turn where
  "final_turn = \<lparr>cancel_first = False,
      response = Inr [(BetaTextBlock ''Task accomplished'',
                        \<lparr>cancel_seen = False, tool = quiet_env\<rparr>)]\<rparr>"

section \<open>The manager as a whole (\<open>AsyncCommandManager\<close>)\<close>

text \<open>
  The \<open>CommandContext\<close> objects are shared between the queue, \<open>current_command\<close>, the
  running task and the history, so they live in a store (\<open>ctxs\<close>) and are referred to by
  their index.  \<open>current_task\<close> is the \<open>asyncio.Task\<close> running \<open>_execute_command\<close>: the
  context it works on, its local \<open>last_result\<close>, whether it has finished and the
  exception it finished with.  \<open>pq\<close> is the point where the coroutine \<open>process_queue\<close>
  stands: at the head of its loop, inside \<open>queue.get()\<close>, awaiting the task, or left.
\<close>

record task =
  task_ctx :: nat
  task_last :: "string option"
  task_done :: bool
  task_exn :: "py_exception option"

datatype pq_point = AtLoopHead | InQueueGet | AwaitingTask | Exited

record manager =
  ctxs :: "CommandContext list"
  queue :: "nat list"
  current_command :: "nat option"
  is_processing :: bool
  shutdown_flag :: bool
  current_task :: "task option"
  command_history :: "nat list"
  max_history :: int
  callback_log :: "CommandContext list"
  handler :: tank_handler
  pq :: pq_point

definition init_manager :: "int \<Rightarrow> tank_handler \<Rightarrow> manager" where
  "init_manager mh h =
     \<lparr>ctxs = [], queue = [], current_command = None, is_processing = False,
      shutdown_flag = False, current_task = None, command_history = [], max_history = mh,
      callback_log = [], handler = h, pq = AtLoopHead\<rparr>"

definition add_command :: "manager \<Rightarrow> string \<Rightarrow> bool \<Rightarrow> rat \<Rightarrow> manager" where
  "add_command m cmd cb ts =
     m\<lparr>ctxs := ctxs m @ [\<lparr>command = cmd, callback = cb, timestamp = ts, state = QUEUED,
                            error = None, result = None\<rparr>],
       queue := queue m @ [length (ctxs m)]\<rparr>"

subsection \<open>\<open>process_queue\<close>\<close>

text \<open>The head of the loop: the \<open>while\<close> test and the test of \<open>is_processing\<close>
  (after its sleep the coroutine is at the head again).\<close>

definition pq_loop_head :: "manager \<Rightarrow> manager" where
  "pq_loop_head m =
     (if shutdown_flag m then m\<lparr>pq := Exited\<rparr>
      else if is_processing m then m
      else m\<lparr>pq := InQueueGet\<rparr>)"

text \<open>\<open>queue.get()\<close> returns and the statements up to \<open>await self._current_task\<close> run.\<close>

definition pq_get :: "manager \<Rightarrow> manager" where
  "pq_get m =
     (case queue m of
        [] \<Rightarrow> m
      | i # rest \<Rightarrow>
          m\<lparr>queue := rest, current_command := Some i, is_processing := True,
            ctxs := (ctxs m)[i := (ctxs m ! i)\<lparr>state := EXECUTING\<rparr>],
            current_task := Some \<lparr>task_ctx = i, task_last = None, task_done = False,
                                  task_exn = None\<rparr>,
            pq := AwaitingTask\<rparr>)"

text \<open>The task takes one chunk from the handler's stream, or reaches the end of it.\<close>

definition task_chunk :: "manager \<Rightarrow> task \<Rightarrow> string \<Rightarrow> manager" where
  "task_chunk m t r =
     (case exec_chunk (ctxs m ! task_ctx t, task_last t, callback_log m) r of
        (ctx, l, cbs) \<Rightarrow>
          m\<lparr>ctxs := (ctxs m)[task_ctx t := ctx], callback_log := cbs,
            current_task := Some (t\<lparr>task_last := l\<rparr>)\<rparr>)"

definition task_end :: "manager \<Rightarrow> task \<Rightarrow> stream_end \<Rightarrow> manager" where
  "task_end m t e =
     (case exec_finish (ctxs m ! task_ctx t, task_last t, callback_log m) e of
        (x, ctx, l, cbs) \<Rightarrow>
          m\<lparr>ctxs := (ctxs m)[task_ctx t := ctx], callback_log := cbs,
            current_task := Some (t\<lparr>task_last := l, task_done := True, task_exn := x\<rparr>)\<rparr>)"

text \<open>
  The two history statements of the \<open>finally\<close> block: \<open>pop(0)\<close> when the history has
  reached \<open>max_history\<close>, which raises \<open>IndexError\<close> on an empty list, then \<open>append\<close>.
\<close>

definition history_push :: "int \<Rightarrow> nat list \<Rightarrow> nat \<Rightarrow> py_exception + nat list" where
  "history_push mh h i =
     (if mh \<le> int (length h)
      then (case h of [] \<Rightarrow> Inl (IndexError ''pop from empty list'')
                    | _ # rest \<Rightarrow> Inr (rest @ [i]))
      else Inr (h @ [i]))"

text \<open>
  The awaited task has finished and \<open>process_queue\<close> goes on: the \<open>finally\<close> block, and
  then either the head of the loop again or, when the task ended with a
  \<open>CancelledError\<close>, which the \<open>except\<close> clause re-raises and \<open>except Exception\<close> does
  not catch, the end of the coroutine.  An \<open>IndexError\<close> from \<open>pop(0)\<close> leaves the
  \<open>finally\<close> block at once and is caught by \<open>except Exception\<close>.
\<close>

definition pq_finally :: "manager \<Rightarrow> task \<Rightarrow> manager" where
  "pq_finally m t =
     (case history_push (max_history m) (command_history m) (task_ctx t) of
        Inl e \<Rightarrow> m\<lparr>pq := AtLoopHead\<rparr>
      | Inr h \<Rightarrow>
          m\<lparr>command_history := h, is_processing := False, current_command := None,
            current_task := None,
            pq := (if task_exn t = None then AtLoopHead else Exited)\<rparr>)"

subsection \<open>\<open>cancel_current\<close> and \<open>shutdown\<close>\<close>

text \<open>
  \<open>cancel_current\<close>.  \<open>hc\<close> is \<open>handler.cancel_current\<close>.  The coroutine is suspended in
  \<open>await self._current_task\<close> after it has asked for the task's cancellation; \<open>aw\<close> is
  what the task and the other coroutines do to the manager until it resumes.
\<close>

definition cancel_current ::
  "(tank_handler \<Rightarrow> py_exception option \<times> tank_handler) \<Rightarrow> (manager \<Rightarrow> manager) \<Rightarrow> manager
     \<Rightarrow> py_exception option \<times> manager" where
  "cancel_current hc aw m =
     (case current_command m of
        None \<Rightarrow> (None, m)
      | Some i \<Rightarrow>
          if state (ctxs m ! i) \<noteq> EXECUTING then (None, m)
          else
            (case hc (handler m) of
               (Some e, h) \<Rightarrow> (Some e, m\<lparr>handler := h\<rparr>)
             | (None, h) \<Rightarrow>
                 (let m1 = m\<lparr>handler := h\<rparr>;
                      m2 = (case current_task m1 of
                              None \<Rightarrow> m1
                            | Some t \<Rightarrow> if task_done t then m1 else aw m1);
                      m3 = m2\<lparr>is_processing := False\<rparr>
                  in case current_command m3 of
                       None \<Rightarrow> (None, m3)
                     | Some j \<Rightarrow>
                         (let ctx = (ctxs m3 ! j)\<lparr>state := CANCELLED,
                                       error := Some ''Command cancelled by user''\<rparr>
                          in (None, m3\<lparr>ctxs := (ctxs m3)[j := ctx],
                                      callback_log := (if callback ctx
                                                       then callback_log m3 @ [ctx]
                                                       else callback_log m3)\<rparr>)))))"

text \<open>The loop of \<open>shutdown\<close> that empties the queue.\<close>

definition drain_queue :: "manager \<Rightarrow> manager" where
  "drain_queue m =
     m\<lparr>ctxs := foldl (\<lambda>cs i. cs[i := (cs ! i)\<lparr>state := CANCELLED,
                                       error := Some ''Command manager shutdown''\<rparr>])
                   (ctxs m) (queue m),
       queue := []\<rparr>"

definition shutdown ::
  "(tank_handler \<Rightarrow> py_exception option \<times> tank_handler) \<Rightarrow> (manager \<Rightarrow> manager) \<Rightarrow> manager
     \<Rightarrow> py_exception option \<times> manager" where
  "shutdown hc aw m =
     (case cancel_current hc aw (m\<lparr>shutdown_flag := True\<rparr>) of
        (Some e, m1) \<Rightarrow> (Some e, m1)
      | (None, m1) \<Rightarrow> (None, drain_queue m1))"

subsection \<open>The running system\<close>

text \<open>
  What can happen to the manager between two suspension points of its coroutines, with
  \<open>TankHandler\<close> as the handler.  An event that is not possible in a state leaves the
  state as it is.  (With this handler \<open>cancel_current\<close> never reaches its \<open>await\<close>, so
  the second argument plays no role.)
\<close>

datatype event =
    AddCommand string bool rat
  | LoopHead
  | QueueGet
  | TaskChunk string
  | TaskEnd stream_end
  | Finally
  | CancelCurrent
  | Shutdown

fun step :: "manager \<Rightarrow> event \<Rightarrow> manager" where
  "step m (AddCommand cmd cb ts) = add_command m cmd cb ts"
| "step m LoopHead = (if pq m = AtLoopHead then pq_loop_head m else m)"
| "step m QueueGet = (if pq m = InQueueGet then pq_get m else m)"
| "step m (TaskChunk r) =
     (case current_task m of
        None \<Rightarrow> m
      | Some t \<Rightarrow> if task_done t then m else task_chunk m t r)"
| "step m (TaskEnd e) =
     (case current_task m of
        None \<Rightarrow> m
      | Some t \<Rightarrow> if task_done t then m else task_end m t e)"
| "step m Finally =
     (case current_task m of
        None \<Rightarrow> m
      | Some t \<Rightarrow> if pq m = AwaitingTask \<and> task_done t then pq_finally m t else m)"
| "step m CancelCurrent = snd (cancel_current tank_cancel_current (\<lambda>m. m) m)"
| "step m Shutdown = snd (shutdown tank_cancel_current (\<lambda>m. m) m)"

definition run :: "manager \<Rightarrow> event list \<Rightarrow> manager" where
  "run m evs = foldl step m evs"


section \<open>Example runs of the manager\<close>

text \<open>
  Three commands that are submitted and processed one after the other (the first
  completes, the second ends with the cancellation marker, the third fails), and the
  state in which the first of two submitted commands is executing.
\<close>

definition three_commands :: "event list" where
  "three_commands =
     [AddCommand ''open the editor'' True 0, AddCommand ''type hello'' True 1,
      AddCommand ''save the file'' False 2,
      LoopHead, QueueGet, TaskChunk ''Opening'', TaskEnd StreamEnd, Finally,
      LoopHead, QueueGet, TaskChunk ''Command cancelled'', TaskEnd StreamEnd, Finally,
      LoopHead, QueueGet, TaskEnd (StreamRaises (RuntimeError ''no display'')), Finally]"

definition one_executing :: manager where
  "one_executing = run (init_manager 100 tank_handler_init)
     [AddCommand ''open the editor'' True 0, AddCommand ''type hello'' True 1,
      LoopHead, QueueGet, TaskChunk ''Opening'']"

text \<open>A command of whitespace only, as \<open>process_queue\<close> hands it to \<open>_execute_command\<close>.\<close>

definition blank_ctx :: CommandContext where
  "blank_ctx = \<lparr>command = [CHR '' '', CHR 0x09, CHR 0x0A], callback = True, timestamp = 0,
                 state = EXECUTING, error = None, result = None\<rparr>"

section \<open>The parts of \<open>scale_coordinates\<close>\<close>

text \<open>
  The pieces that \<open>scale_coordinates\<close> is made of, named so that each axis can be
  treated alone: the replacement of a negative input by \<open>0\<close>, the value of one axis
  before clamping in the API direction (\<open>int((x / base) * real + offset)\<close>), the
  coordinate relative to the screen origin that the COMPUTER direction clamps to
  \<open>[0, real]\<close>, and the value of one axis in the COMPUTER direction
  (\<open>int((r / real) * base)\<close>).
\<close>

definition nonneg_coord :: "int \<Rightarrow> int" where
  "nonneg_coord x = (if x < 0 then 0 else x)"

definition api_axis_value :: "int \<Rightarrow> int \<Rightarrow> int \<Rightarrow> int \<Rightarrow> py_exception + int" where
  "api_axis_value p b w off =
     (case scaled p b w of Inl e \<Rightarrow> Inl e | Inr f \<Rightarrow> int_of_sum f off)"

definition rel_coord :: "int \<Rightarrow> int \<Rightarrow> int \<Rightarrow> int" where
  "rel_coord x off w =
     (if w < (if (if x < 0 then 0 else x) - off < 0 then 0 else (if x < 0 then 0 else x) - off)
      then w
      else (if (if x < 0 then 0 else x) - off < 0 then 0 else (if x < 0 then 0 else x) - off))"

definition computer_axis_value :: "int \<Rightarrow> int \<Rightarrow> int \<Rightarrow> py_exception + int" where
  "computer_axis_value p w b =
     (case scaled p w b of Inl e \<Rightarrow> Inl e | Inr f \<Rightarrow> int_of_float f)"

text \<open>
  Two further controllers: the handler's configuration with scaling switched off, and
  the default \<open>ScalingConfig\<close> (XGA, 1024 x 768) on a 1920 x 1440 screen, which has the
  same 4:3 aspect ratio.
\<close>

definition unscaled_controller :: controller where
  "unscaled_controller =
     tank_controller_init\<lparr>config := \<lparr>history_size = 10,
        scaling = \<lparr>enabled = False, base_width = 1366, base_height = 768\<rparr>\<rparr>\<rparr>"

definition xga_controller :: controller where
  "xga_controller =
     tank_controller_init\<lparr>config := \<lparr>history_size = 10,
        scaling = \<lparr>enabled = True, base_width = 1024, base_height = 768\<rparr>\<rparr>,
        screen_width := 1920, screen_height := 1440\<rparr>"

section \<open>Properties of \<open>_execute_command\<close>\<close>

lemma exec_chunk_last:
  "fst (snd (exec_chunk (ctx, l, cbs) r)) = (if r \<noteq> [] then Some r else l)"
  by (simp add: exec_chunk_def)

lemma foldl_exec_chunk_last:
  "fst (snd (foldl exec_chunk (ctx, l, cbs) chunks)) =
     (if filter (\<lambda>r. r \<noteq> []) chunks = [] then l
      else Some (last (filter (\<lambda>r. r \<noteq> []) chunks)))"
proof (induction chunks arbitrary: ctx l cbs)
  case Nil
  show ?case by simp
next
  case (Cons r rs)
  obtain c1 l1 g1 where step: "exec_chunk (ctx, l, cbs) r = (c1, l1, g1)"
    by (cases "exec_chunk (ctx, l, cbs) r") auto
  have l1: "l1 = (if r \<noteq> [] then Some r else l)"
    using exec_chunk_last [of ctx l cbs r] step by simp
  show ?case
    using Cons.IH [of c1 l1 g1] step l1 by simp
qed

lemma exec_chunk_state:
  "state (fst (exec_chunk (ctx, l, cbs) r)) = state ctx"
  by (simp add: exec_chunk_def)

lemma exec_chunk_error:
  "error (fst (exec_chunk (ctx, l, cbs) r)) = error ctx"
  by (simp add: exec_chunk_def)

text \<open>
  C2.  When the handler's stream ends without raising, the command is CANCELLED with
  the error text "Command cancelled by user" exactly when the last non-empty chunk is
  the marker "Command cancelled" (whether or not a cancellation was requested), and
  COMPLETED otherwise, in particular when no non-empty chunk was yielded at all.
\<close>

theorem execute_command_marker:
  "state (fst (snd (execute_command_mgr ctx cbs chunks StreamEnd))) =
     (if filter (\<lambda>r. r \<noteq> []) chunks \<noteq> [] \<and>
         last (filter (\<lambda>r. r \<noteq> []) chunks) = ''Command cancelled''
      then CANCELLED else COMPLETED)
   \<and> (state (fst (snd (execute_command_mgr ctx cbs chunks StreamEnd))) = CANCELLED \<longrightarrow>
        error (fst (snd (execute_command_mgr ctx cbs chunks StreamEnd)))
          = Some ''Command cancelled by user'')
   \<and> fst (execute_command_mgr ctx cbs chunks StreamEnd) = None"
proof -
  obtain c l g where f: "foldl exec_chunk (ctx, None, cbs) chunks = (c, l, g)"
    by (cases "foldl exec_chunk (ctx, None, cbs) chunks") auto
  have l: "l = (if filter (\<lambda>r. r \<noteq> []) chunks = [] then None
                else Some (last (filter (\<lambda>r. r \<noteq> []) chunks)))"
    using foldl_exec_chunk_last [of ctx None cbs chunks] f by simp
  show ?thesis
    unfolding execute_command_mgr_def f exec_finish_def
    using l by (simp split: if_splits)
qed

theorem execute_command_marker_witness:
  "state (fst (snd (execute_command_mgr
      \<lparr>command = ''open the browser'', callback = True, timestamp = 0, state = EXECUTING,
       error = None, result = None\<rparr> []
      [''Taking a screenshot'', '''', ''Command cancelled'', ''''] StreamEnd))) = CANCELLED
   \<and> error (fst (snd (execute_command_mgr
      \<lparr>command = ''open the browser'', callback = True, timestamp = 0, state = EXECUTING,
       error = None, result = None\<rparr> []
      [''Taking a screenshot'', '''', ''Command cancelled'', ''''] StreamEnd)))
       = Some ''Command cancelled by user''
   \<and> state (fst (snd (execute_command_mgr
      \<lparr>command = ''open the browser'', callback = True, timestamp = 0, state = EXECUTING,
       error = None, result = None\<rparr> []
      [''Command cancelled'', ''Task completed''] StreamEnd))) = COMPLETED"
  using execute_command_marker [of
      "\<lparr>command = ''open the browser'', callback = True, timestamp = 0, state = EXECUTING,
       error = None, result = None\<rparr>" "[]"
      "[''Taking a screenshot'', '''', ''Command cancelled'', '''']"]
    execute_command_marker [of
      "\<lparr>command = ''open the browser'', callback = True, timestamp = 0, state = EXECUTING,
       error = None, result = None\<rparr>" "[]"
      "[''Command cancelled'', ''Task completed'']"]
  by simp

section \<open>Properties of the screenshot filter\<close>


lemma remove_items_fst:
  "fst (remove_items n items) = n - int (min (nat n) (length (filter is_image items)))"
  by (induction n items rule: remove_items.induct) (auto split: prod.splits)

lemma remove_items_images:
  "filter is_image (snd (remove_items n items)) = drop (nat n) (filter is_image items)"
proof (induction n items rule: remove_items.induct)
  case (1 n)
  show ?case by simp
next
  case (2 n c cs)
  show ?case
  proof (cases "is_image c \<and> 0 < n")
    case True
    then have "nat n = Suc (nat (n - 1))" by arith
    with True 2 show ?thesis by simp
  next
    case False
    with 2 show ?thesis by (auto split: prod.splits)
  qed
qed

lemma remove_items_rest:
  "filter (\<lambda>c. \<not> is_image c) (snd (remove_items n items)) = filter (\<lambda>c. \<not> is_image c) items"
  by (induction n items rule: remove_items.induct) (auto split: prod.splits)

lemma remove_blocks_nonpos: "n \<le> 0 \<Longrightarrow> remove_blocks n bs = (n, bs)"
  by (induction n bs rule: remove_blocks.induct) auto

lemma remove_blocks_fst:
  "fst (remove_blocks n bs) = n - int (min (nat n) (length (concat (map block_image_items bs))))"
proof (induction n bs rule: remove_blocks.induct)
  case (1 n)
  show ?case by simp
next
  case (2 n i items bs)
  show ?case
  proof (cases "n \<le> 0")
    case True
    then show ?thesis by simp
  next
    case False
    obtain n1 items' where ri: "remove_items n items = (n1, items')"
      by (cases "remove_items n items") auto
    have n1: "n1 = n - int (min (nat n) (length (filter is_image items)))"
      using remove_items_fst [of n items] ri by simp
    obtain n2 bs' where rb: "remove_blocks n1 bs = (n2, bs')"
      by (cases "remove_blocks n1 bs") auto
    have n2: "n2 = n1 - int (min (nat n1) (length (concat (map block_image_items bs))))"
      using 2 False ri rb by simp
    have "n2 = n - int (min (nat n) (length (filter is_image items)
              + length (concat (map block_image_items bs))))"
      unfolding n2 n1 by arith
    then show ?thesis using False ri rb by simp
  qed
qed (auto split: prod.splits)


lemma remove_blocks_images:
  "concat (map block_image_items (snd (remove_blocks n bs)))
     = drop (nat n) (concat (map block_image_items bs))"
proof (induction n bs rule: remove_blocks.induct)
  case (1 n)
  show ?case by simp
next
  case (2 n i items bs)
  show ?case
  proof (cases "n \<le> 0")
    case True
    then show ?thesis by simp
  next
    case False
    obtain n1 items' where ri: "remove_items n items = (n1, items')"
      by (cases "remove_items n items") auto
    obtain n2 bs' where rb: "remove_blocks n1 bs = (n2, bs')"
      by (cases "remove_blocks n1 bs") auto
    have n1: "n1 = n - int (min (nat n) (length (filter is_image items)))"
      using remove_items_fst [of n items] ri by simp
    have i1: "filter is_image items' = drop (nat n) (filter is_image items)"
      using remove_items_images [of n items] ri by simp
    have i2: "concat (map block_image_items bs')
                = drop (nat n1) (concat (map block_image_items bs))"
      using 2 False ri rb by simp
    have "nat n1 = nat n - length (filter is_image items)"
      unfolding n1 using False by arith
    then show ?thesis using False ri rb i1 i2 by simp
  qed
qed (auto split: prod.splits)

lemma remove_blocks_rest: "map strip_block (snd (remove_blocks n bs)) = map strip_block bs"
proof (induction n bs rule: remove_blocks.induct)
  case (2 n i items bs)
  show ?case
  proof (cases "n \<le> 0")
    case True
    then show ?thesis by simp
  next
    case False
    obtain n1 items' where ri: "remove_items n items = (n1, items')"
      by (cases "remove_items n items") auto
    have "filter (\<lambda>c. \<not> is_image c) items' = filter (\<lambda>c. \<not> is_image c) items"
      using remove_items_rest [of n items] ri by simp
    with 2 False ri show ?thesis by (auto split: prod.splits)
  qed
qed (auto split: prod.splits)

lemma images_of_Cons:
  "images_of (m # ms) = concat (map block_image_items (content m)) @ images_of ms"
  by (simp add: images_of_def)

lemma remove_messages_fst:
  "fst (remove_messages n ms) = n - int (min (nat n) (length (images_of ms)))"
proof (induction n ms rule: remove_messages.induct)
  case (1 n)
  show ?case by (simp add: images_of_def)
next
  case (2 n m ms)
  obtain n1 bs' where rb: "remove_blocks n (content m) = (n1, bs')"
    by (cases "remove_blocks n (content m)") auto
  obtain n2 ms' where rm: "remove_messages n1 ms = (n2, ms')"
    by (cases "remove_messages n1 ms") auto
  have n1: "n1 = n - int (min (nat n) (length (concat (map block_image_items (content m)))))"
    using remove_blocks_fst [of n "content m"] rb by simp
  have n2: "n2 = n1 - int (min (nat n1) (length (images_of ms)))"
    using 2 rb rm by simp
  have "n2 = n - int (min (nat n) (length (concat (map block_image_items (content m)))
            + length (images_of ms)))"
    unfolding n2 n1 by arith
  then show ?case using rb rm by (simp add: images_of_Cons)
qed

lemma remove_messages_images:
  "images_of (snd (remove_messages n ms)) = drop (nat n) (images_of ms)"
proof (induction n ms rule: remove_messages.induct)
  case (1 n)
  show ?case by (simp add: images_of_def)
next
  case (2 n m ms)
  obtain n1 bs' where rb: "remove_blocks n (content m) = (n1, bs')"
    by (cases "remove_blocks n (content m)") auto
  obtain n2 ms' where rm: "remove_messages n1 ms = (n2, ms')"
    by (cases "remove_messages n1 ms") auto
  have n1: "n1 = n - int (min (nat n) (length (concat (map block_image_items (content m)))))"
    using remove_blocks_fst [of n "content m"] rb by simp
  have i1: "concat (map block_image_items bs')
              = drop (nat n) (concat (map block_image_items (content m)))"
    using remove_blocks_images [of n "content m"] rb by simp
  have i2: "images_of ms' = drop (nat n1) (images_of ms)"
    using 2 rb rm by simp
  have "nat n1 = nat n - length (concat (map block_image_items (content m)))"
    unfolding n1 by arith
  then show ?case using rb rm i1 i2 by (simp add: images_of_Cons)
qed

lemma remove_messages_rest: "strip_images (snd (remove_messages n ms)) = strip_images ms"
proof (induction n ms rule: remove_messages.induct)
  case (1 n)
  show ?case by (simp add: strip_images_def)
next
  case (2 n m ms)
  obtain n1 bs' where rb: "remove_blocks n (content m) = (n1, bs')"
    by (cases "remove_blocks n (content m)") auto
  have "map strip_block bs' = map strip_block (content m)"
    using remove_blocks_rest [of n "content m"] rb by simp
  with 2 rb show ?case by (auto simp: strip_images_def split: prod.splits)
qed

lemma block_images_length: "block_images b = length (block_image_items b)"
  by (cases b) auto

lemma total_images_length: "total_images ms = int (length (images_of ms))"
proof -
  have "sum_list (map block_images bs) = length (concat (map block_image_items bs))" for bs
    by (induction bs) (auto simp: block_images_length)
  then show ?thesis by (simp add: total_images_def images_of_def)
qed

text \<open>
  C4.  With \<open>images_to_keep = 2\<close> and \<open>min_removal_threshold = 2\<close> the filter never
  fails.  For a message list holding \<open>K\<close> screenshots in its tool results it removes
  \<open>R\<close> of them, where \<open>R\<close> is \<open>K - 2\<close> rounded down to a multiple of 2 when \<open>K > 2\<close>
  and 0 otherwise: the screenshots that remain are the original ones without the \<open>R\<close>
  oldest (in the order of the whole message list), so exactly \<open>K - R\<close> remain, and
  everything that is not a screenshot is unchanged.
\<close>

theorem filter_keeps_two_most_recent:
  "\<exists>ms'. maybe_filter_to_n_most_recent_images ms 2 2 = Inr ms'
      \<and> images_of ms' =
          drop (if 2 < length (images_of ms) then 2 * ((length (images_of ms) - 2) div 2) else 0)
            (images_of ms)
      \<and> length (images_of ms') =
          length (images_of ms)
            - (if 2 < length (images_of ms) then 2 * ((length (images_of ms) - 2) div 2) else 0)
      \<and> strip_images ms' = strip_images ms"
proof (cases "2 < length (images_of ms)")
  case False
  then show ?thesis
    by (simp add: maybe_filter_to_n_most_recent_images_def total_images_length)
next
  case True
  define k where "k = int (length (images_of ms)) - 2"
  define n where "n = k - k mod 2"
  have res: "maybe_filter_to_n_most_recent_images ms 2 2 = Inr (snd (remove_messages n ms))"
    using True
    by (simp add: maybe_filter_to_n_most_recent_images_def total_images_length Let_def
        k_def n_def)
  obtain j where j: "length (images_of ms) = j + 2"
    using True by (metis add.commute le_add_diff_inverse less_imp_le_nat)
  have "k - k mod 2 = 2 * (k div 2)"
    by (simp add: minus_mod_eq_mult_div)
  moreover have "k = int j"
    by (simp add: k_def j)
  ultimately have "n = int (2 * (j div 2))"
    by (simp add: n_def zdiv_int)
  then have nn: "nat n = 2 * ((length (images_of ms) - 2) div 2)"
    by (simp add: j)
  show ?thesis
    using True res nn remove_messages_images [of n ms] remove_messages_rest [of n ms]
    by simp
qed

theorem filter_keeps_two_most_recent_witness:
  "\<exists>ms'. maybe_filter_to_n_most_recent_images
       [\<lparr>role = User, content = [Text ''open the editor'']\<rparr>,
        \<lparr>role = User, content = [ToolResult ''t1'' [ImageItem ''s1'', TextItem ''a'']]\<rparr>,
        \<lparr>role = User, content = [ToolResult ''t2'' [ImageItem ''s2''],
                                  ToolResult ''t3'' [ImageItem ''s3'']]\<rparr>,
        \<lparr>role = Assistant, content = [ToolUse ''t4'' ''computer'' []]\<rparr>,
        \<lparr>role = User, content = [ToolResult ''t4'' [ImageItem ''s4'', ImageItem ''s5'']]\<rparr>]
       2 2 = Inr ms'
     \<and> images_of ms' = [ImageItem ''s3'', ImageItem ''s4'', ImageItem ''s5'']"
  using filter_keeps_two_most_recent [of
       "[\<lparr>role = User, content = [Text ''open the editor'']\<rparr>,
        \<lparr>role = User, content = [ToolResult ''t1'' [ImageItem ''s1'', TextItem ''a'']]\<rparr>,
        \<lparr>role = User, content = [ToolResult ''t2'' [ImageItem ''s2''],
                                  ToolResult ''t3'' [ImageItem ''s3'']]\<rparr>,
        \<lparr>role = Assistant, content = [ToolUse ''t4'' ''computer'' []]\<rparr>,
        \<lparr>role = User, content = [ToolResult ''t4'' [ImageItem ''s4'', ImageItem ''s5'']]\<rparr>]"]
  by (auto simp: images_of_def)

section \<open>Properties of the tool executor\<close>





section \<open>Properties of the message loop\<close>











section \<open>Properties of the history\<close>










lemma three_commands_states:
  "map state (ctxs (run (init_manager 2 tank_handler_init) three_commands))
     = [COMPLETED, CANCELLED, FAILED]"
  by code_simp



section \<open>Cancellation and shutdown with \<open>TankHandler\<close>\<close>

text \<open>
  C1.  With a command executing, \<open>cancel_current\<close> of the manager calls the handler,
  whose controller sets its flag and raises \<open>CancelledError\<close>.  Nothing catches it on the
  way, so it leaves \<open>cancel_current\<close>: the command is still EXECUTING with no error
  text, \<open>is_processing\<close> is still set, and the callback has not been called again (its
  one recorded call is from the chunk received before).
\<close>

theorem cancel_current_raises:
  "fst (cancel_current tank_cancel_current aw one_executing)
     = Some (CancelledError ''Command cancelled by user'')
   \<and> current_command (snd (cancel_current tank_cancel_current aw one_executing)) = Some 0
   \<and> state (ctxs (snd (cancel_current tank_cancel_current aw one_executing)) ! 0) = EXECUTING
   \<and> error (ctxs (snd (cancel_current tank_cancel_current aw one_executing)) ! 0) = None
   \<and> is_processing (snd (cancel_current tank_cancel_current aw one_executing))
   \<and> callback_log (snd (cancel_current tank_cancel_current aw one_executing))
        = callback_log one_executing
   \<and> map state (callback_log one_executing) = [EXECUTING]
   \<and> cancelled (tank_controller (handler (snd (cancel_current tank_cancel_current aw
        one_executing))))"
  by (simp add: one_executing_def run_def init_manager_def add_command_def pq_loop_head_def
      pq_get_def task_chunk_def exec_chunk_def cancel_current_def tank_cancel_current_def
      controller_cancel_current_def tank_handler_init_def)

text \<open>
  C8.  With a command executing and another one queued, \<open>shutdown\<close> sets its flag and
  then leaves with the same \<open>CancelledError\<close>: the queue still holds the second
  command, which is still QUEUED, and the first is still EXECUTING.
\<close>

theorem shutdown_raises:
  "fst (shutdown tank_cancel_current aw one_executing)
     = Some (CancelledError ''Command cancelled by user'')
   \<and> shutdown_flag (snd (shutdown tank_cancel_current aw one_executing))
   \<and> queue (snd (shutdown tank_cancel_current aw one_executing)) = [1]
   \<and> state (ctxs (snd (shutdown tank_cancel_current aw one_executing)) ! 1) = QUEUED
   \<and> state (ctxs (snd (shutdown tank_cancel_current aw one_executing)) ! 0) = EXECUTING"
  by (simp add: one_executing_def run_def init_manager_def add_command_def pq_loop_head_def
      pq_get_def task_chunk_def exec_chunk_def cancel_current_def tank_cancel_current_def
      controller_cancel_current_def tank_handler_init_def shutdown_def)

section \<open>Blank commands\<close>

lemma strip_blank:
  assumes "list_all is_space s"
  shows "strip s = []"
proof -
  have d: "dropWhile is_space s = []"
    using assms by (induction s) auto
  show ?thesis
    unfolding strip_def d by simp
qed

text \<open>
  C10 (as amended).  For a command that is empty or consists of whitespace only,
  \<open>execute_command\<close> of the controller yields no chunk and returns at once: the script
  of model responses is not touched (no request is sent), the desktop trace and the
  controller, with its tool statistics, are unchanged.  The handler passes this on as
  an empty stream when its session is there or can be set up, and \<open>_execute_command\<close>
  of the manager, given an empty stream, marks the command COMPLETED, not FAILED,
  without calling the callback and without a result text: the \<open>result\<close> field is what
  it was, \<open>None\<close> for a command fresh from the queue.  When the handler has no session
  and setting it up fails, the handler yields one error chunk instead, still without a
  request or a tool call, and the manager marks the command COMPLETED with that chunk
  as its result text.
\<close>

theorem blank_command:
  assumes "list_all is_space (command ctx)"
  shows "execute_command fmt fail self tr (command ctx) script
           = ([], GenReturn, \<lparr>messages = [], ctl = self, trace = tr, out = [], api_calls = 0\<rparr>)
       \<and> (tank_initialized h \<longrightarrow>
            tank_execute_command fmt fail h tr (command ctx) script = ([], GenReturn, h, tr, 0))
       \<and> (\<not> tank_initialized h \<and> (fail = None \<or> initialized (tank_controller h)) \<longrightarrow>
            tank_execute_command fmt fail h tr (command ctx) script
              = ([], GenReturn,
                 h\<lparr>tank_controller := (tank_controller h)\<lparr>initialized := True\<rparr>,
                   tank_initialized := True\<rparr>, tr, 0))
       \<and> (\<not> tank_initialized h \<and> \<not> initialized (tank_controller h) \<and> fail = Some msg \<longrightarrow>
            tank_execute_command fmt fail h tr (command ctx) script
              = ([''Command execution error: Session initialization failed: ''
                  @ ''Session initialization failed: '' @ msg], GenReturn, h, tr, 0))
       \<and> execute_command_mgr ctx cbs [] StreamEnd = (None, ctx\<lparr>state := COMPLETED\<rparr>, None, cbs)
       \<and> result (ctx\<lparr>state := COMPLETED\<rparr>) = result ctx
       \<and> execute_command_mgr ctx cbs [''Command execution error: '' @ m] StreamEnd
           = (None, ctx\<lparr>result := Some (''Command execution error: '' @ m), state := COMPLETED\<rparr>,
              Some (''Command execution error: '' @ m),
              if callback ctx then cbs @ [ctx\<lparr>result := Some (''Command execution error: '' @ m)\<rparr>]
              else cbs)"
proof -
  have b: "strip (command ctx) = []" using assms by (rule strip_blank)
  have e: "execute_command fmt fail c tr s script
           = ([], GenReturn, \<lparr>messages = [], ctl = c, trace = tr, out = [], api_calls = 0\<rparr>)"
    if "strip s = []" for c s
    using that by (simp add: execute_command_def)
  have "strip [] = []" by (simp add: strip_def)
  then have bb: "strip (strip (command ctx)) = []" by (simp only: b)
  have t1: "tank_execute_command fmt fail h tr (command ctx) script = ([], GenReturn, h, tr, 0)"
    if "tank_initialized h"
    using that e [OF bb] by (simp add: tank_execute_command_def)
  have t2: "tank_execute_command fmt fail h tr (command ctx) script
              = ([], GenReturn,
                 h\<lparr>tank_controller := (tank_controller h)\<lparr>initialized := True\<rparr>,
                   tank_initialized := True\<rparr>, tr, 0)"
    if "\<not> tank_initialized h" "fail = None \<or> initialized (tank_controller h)"
    using that e [OF bb]
    by (auto simp: tank_execute_command_def tank_init_session_def init_session_def
        split: option.splits)
  have t3: "tank_execute_command fmt fail h tr (command ctx) script
              = ([''Command execution error: Session initialization failed: ''
                  @ ''Session initialization failed: '' @ msg], GenReturn, h, tr, 0)"
    if "\<not> tank_initialized h" "\<not> initialized (tank_controller h)" "fail = Some msg"
    using that
    by (simp add: tank_execute_command_def tank_init_session_def init_session_def)
  have m: "execute_command_mgr ctx cbs [] StreamEnd = (None, ctx\<lparr>state := COMPLETED\<rparr>, None, cbs)"
    by (simp add: execute_command_mgr_def exec_finish_def)
  have ne: "''Command execution error: '' @ m \<noteq> ''Command cancelled''" by simp
  have m2: "execute_command_mgr ctx cbs [''Command execution error: '' @ m] StreamEnd
           = (None, ctx\<lparr>result := Some (''Command execution error: '' @ m), state := COMPLETED\<rparr>,
              Some (''Command execution error: '' @ m),
              if callback ctx then cbs @ [ctx\<lparr>result := Some (''Command execution error: '' @ m)\<rparr>]
              else cbs)"
    using ne by (simp add: execute_command_mgr_def exec_finish_def exec_chunk_def)
  show ?thesis using e [OF b] t1 t2 t3 m m2 by simp
qed

theorem blank_command_witness:
  "execute_command no_repr None tank_controller_init [] (command blank_ctx) [final_turn]
     = ([], GenReturn, \<lparr>messages = [], ctl = tank_controller_init, trace = [], out = [],
                         api_calls = 0\<rparr>)
   \<and> fst (tank_execute_command no_repr None tank_handler_init [] (command blank_ctx)
            [final_turn]) = []
   \<and> state (fst (snd (execute_command_mgr blank_ctx [] [] StreamEnd))) = COMPLETED
   \<and> result (fst (snd (execute_command_mgr blank_ctx [] [] StreamEnd))) = None"
  using blank_command [where ctx = blank_ctx and fmt = no_repr and fail = None
      and self = tank_controller_init and tr = "[]" and script = "[final_turn]"
      and h = tank_handler_init and cbs = "[]"]
  by (simp add: is_space_def tank_handler_init_def blank_ctx_def)

text \<open>
  The claim as stated has every blank command end COMPLETED with no result text.  With
  a handler that has no session yet and a client that cannot be constructed, the blank
  command is answered with an error chunk, and the manager stores it as the result of
  a COMPLETED command.
\<close>

theorem blank_command_init_failure:
  "tank_execute_command no_repr (Some ''no api key'') tank_handler_init [] (command blank_ctx)
       [final_turn]
     = ([''Command execution error: Session initialization failed: Session initialization failed: no api key''],
        GenReturn, tank_handler_init, [], 0)
   \<and> execute_command_mgr blank_ctx []
       [''Command execution error: Session initialization failed: Session initialization failed: no api key'']
       StreamEnd
     = (None,
        blank_ctx\<lparr>result := Some ''Command execution error: Session initialization failed: Session initialization failed: no api key'',
                  state := COMPLETED\<rparr>,
        Some ''Command execution error: Session initialization failed: Session initialization failed: no api key'',
        [blank_ctx\<lparr>result := Some ''Command execution error: Session initialization failed: Session initialization failed: no api key''\<rparr>])"
  by (simp add: tank_execute_command_def tank_init_session_def init_session_def
      tank_handler_init_def tank_controller_init_def blank_ctx_def
      execute_command_mgr_def exec_finish_def exec_chunk_def)

section \<open>What \<open>cancel_current\<close> of the manager does otherwise\<close>

text \<open>
  With nothing executing the method changes nothing.  With a handler whose
  \<open>cancel_current\<close> returns, and the task finished by the time the method goes on, the
  command is set to CANCELLED with the standard error text and the callback is called
  with it before the method returns.
\<close>

lemma cancel_current_idle:
  "current_command m = None \<or> (\<exists>i. current_command m = Some i \<and> state (ctxs m ! i) \<noteq> EXECUTING)
     \<Longrightarrow> cancel_current hc aw m = (None, m)"
  by (auto simp: cancel_current_def)

lemma cancel_current_returning_handler:
  assumes "current_command m = Some i" and "state (ctxs m ! i) = EXECUTING"
      and "hc (handler m) = (None, h)" and "current_task m = Some t" and "task_done t"
      and "i < length (ctxs m)"
  shows "\<exists>m'. cancel_current hc aw m = (None, m')
           \<and> state (ctxs m' ! i) = CANCELLED
           \<and> error (ctxs m' ! i) = Some ''Command cancelled by user''
           \<and> \<not> is_processing m'
           \<and> (callback (ctxs m ! i) \<longrightarrow> callback_log m' = callback_log m @ [ctxs m' ! i])"
  using assms by (simp add: cancel_current_def Let_def)

section \<open>Properties of the float model\<close>

lemma pow2_pos: "0 < (2::rat) powi k" by simp

lemma bitlen_powi_bounds:
  assumes "0 < p"
  shows "(2::rat) powi (bitlen p - 1) \<le> of_int p" "of_int p < (2::rat) powi (bitlen p)"
proof -
  have b: "1 \<le> bitlen p" using assms by (simp add: bitlen_ge_iff_power)
  from bitlen_bounds [OF assms]
  have l: "2 ^ nat (bitlen p - 1) \<le> p" and u: "p < 2 ^ nat (bitlen p)" by auto
  have "(2::rat) powi (bitlen p - 1) = 2 ^ nat (bitlen p - 1)"
    using b by (simp add: power_int_nonneg_exp)
  also have "\<dots> = of_int (2 ^ nat (bitlen p - 1))" by simp
  also have "\<dots> \<le> of_int p" using l by (simp only: of_int_le_iff)
  finally show "(2::rat) powi (bitlen p - 1) \<le> of_int p" .
  have "(of_int p :: rat) < of_int (2 ^ nat (bitlen p))" using u by (simp only: of_int_less_iff)
  also have "\<dots> = 2 ^ nat (bitlen p)" by simp
  also have "\<dots> = (2::rat) powi (bitlen p)"
    using b by (simp add: power_int_nonneg_exp)
  finally show "of_int p < (2::rat) powi (bitlen p)" .
qed

lemma ilog2_bounds:
  assumes "0 < r"
  shows "2 powi (ilog2 r) \<le> r" "r < 2 powi (ilog2 r + 1)"
proof -
  obtain p q where pq: "quotient_of r = (p, q)" by (cases "quotient_of r") auto
  have q: "0 < q" using pq by (rule quotient_of_denom_pos)
  have r: "r = of_int p / of_int q" using pq by (rule quotient_of_div)
  have p: "0 < p" using assms q r by (simp add: zero_less_divide_iff)
  define k where "k = bitlen p - bitlen q"
  note bp = bitlen_powi_bounds [OF p] and bq = bitlen_powi_bounds [OF q]
  have qpos: "(0::rat) < of_int q" using q by simp
  have up: "r < 2 powi (k + 1)"
  proof -
    have "r < 2 powi (bitlen p) / of_int q"
      unfolding r using bp(2) qpos by (simp add: divide_strict_right_mono)
    also have "\<dots> \<le> 2 powi (bitlen p) / 2 powi (bitlen q - 1)"
      using bq(1) by (intro divide_left_mono) (auto intro: mult_pos_pos qpos)
    also have "\<dots> = 2 powi (k + 1)"
      unfolding k_def by (simp add: power_int_diff [symmetric] algebra_simps)
    finally show ?thesis .
  qed
  have lo: "2 powi (k - 1) \<le> r"
  proof -
    have "(2::rat) powi (k - 1) = 2 powi (bitlen p - 1) / 2 powi (bitlen q)"
      unfolding k_def by (simp add: power_int_diff [symmetric] algebra_simps)
    also have "\<dots> \<le> of_int p / 2 powi (bitlen q)"
      using bp(1) by (simp add: divide_right_mono)
    also have "\<dots> \<le> of_int p / of_int q"
      using bq(2) p qpos by (intro divide_left_mono) (auto intro: mult_pos_pos)
    finally show ?thesis unfolding r .
  qed
  have il: "ilog2 r = (if 2 powi k \<le> r then k else k - 1)"
    by (simp add: ilog2_def pq k_def Let_def)
  show "2 powi (ilog2 r) \<le> r"
    using lo by (simp add: il)
  show "r < 2 powi (ilog2 r + 1)"
    using up by (auto simp: il not_le)
qed

lemma ilog2_less:
  assumes "0 < r" and "r < 2 powi n"
  shows "ilog2 r < n"
proof (rule ccontr)
  assume "\<not> ilog2 r < n"
  then have "n \<le> ilog2 r" by simp
  then have "(2::rat) powi n \<le> 2 powi (ilog2 r)" by (intro power_int_increasing) auto
  also have "\<dots> \<le> r" using ilog2_bounds(1) [OF assms(1)] .
  finally show False using assms(2) by simp
qed

lemma ilog2_ge:
  assumes "0 < r" and "2 powi n \<le> r"
  shows "n \<le> ilog2 r"
proof (rule ccontr)
  assume "\<not> n \<le> ilog2 r"
  then have "ilog2 r + 1 \<le> n" by simp
  then have "(2::rat) powi (ilog2 r + 1) \<le> 2 powi n" by (intro power_int_increasing) auto
  with ilog2_bounds(2) [OF assms(1)] assms(2) show False by simp
qed


lemma round_half_even_cases:
  "round_half_even r = \<lfloor>r\<rfloor> \<or> (round_half_even r = \<lfloor>r\<rfloor> + 1 \<and> 1 / 2 \<le> r - of_int \<lfloor>r\<rfloor>)"
  by (auto simp: round_half_even_def Let_def)

lemma round_half_even_le:
  assumes "r \<le> of_int n"
  shows "round_half_even r \<le> n"
proof -
  have f: "\<lfloor>r\<rfloor> \<le> n" using assms by (simp add: floor_le_iff)
  from round_half_even_cases [of r] show ?thesis
  proof
    assume "round_half_even r = \<lfloor>r\<rfloor>"
    then show ?thesis using f by simp
  next
    assume a: "round_half_even r = \<lfloor>r\<rfloor> + 1 \<and> 1 / 2 \<le> r - of_int \<lfloor>r\<rfloor>"
    then have "of_int \<lfloor>r\<rfloor> < r" by linarith
    then have "of_int \<lfloor>r\<rfloor> < (of_int n :: rat)" using assms by linarith
    then have "\<lfloor>r\<rfloor> < n" by (simp only: of_int_less_iff)
    then show ?thesis using a by simp
  qed
qed

lemma round_half_even_ge:
  assumes "of_int n \<le> r"
  shows "n \<le> round_half_even r"
proof -
  have "n \<le> \<lfloor>r\<rfloor>" using assms by (simp add: le_floor_iff)
  then show ?thesis using round_half_even_cases [of r] by auto
qed

lemma round_half_even_int [simp]: "round_half_even (of_int n) = n"
  using round_half_even_le [of "of_int n" n] round_half_even_ge [of n "of_int n"] by simp

lemma round_half_even_err: "\<bar>of_int (round_half_even r) - r\<bar> \<le> 1 / 2"
proof -
  have f: "of_int \<lfloor>r\<rfloor> \<le> r" "r < of_int \<lfloor>r\<rfloor> + 1" by linarith+
  show ?thesis
  proof (cases "r - of_int \<lfloor>r\<rfloor> < 1 / 2")
    case True
    then have "round_half_even r = \<lfloor>r\<rfloor>" by (simp add: round_half_even_def Let_def)
    then show ?thesis using True f by simp
  next
    case False
    show ?thesis
    proof (cases "1 / 2 < r - of_int \<lfloor>r\<rfloor>")
      case True
      then have "round_half_even r = \<lfloor>r\<rfloor> + 1" using False
        by (simp add: round_half_even_def Let_def)
      then show ?thesis using True f by simp
    next
      case nb: False
      with False have h: "r - of_int \<lfloor>r\<rfloor> = 1 / 2" by simp
      from round_half_even_cases [of r] show ?thesis using h by auto
    qed
  qed
qed

lemma round_double_alt:
  "r \<noteq> 0 \<Longrightarrow> round_double r = of_int (round_half_even (r / 2 powi (ulp_exp r))) * 2 powi (ulp_exp r)"
  by (simp add: round_double_def ulp_exp_def Let_def)

lemma round_double_le:
  assumes "r \<noteq> 0" and "r \<le> of_int m * 2 powi (ulp_exp r)"
  shows "round_double r \<le> of_int m * 2 powi (ulp_exp r)"
proof -
  have u: "(0::rat) < 2 powi (ulp_exp r)" by simp
  have "r / 2 powi (ulp_exp r) \<le> of_int m"
    using assms(2) u by (simp add: pos_divide_le_eq)
  then have "round_half_even (r / 2 powi (ulp_exp r)) \<le> m" by (rule round_half_even_le)
  then have "(of_int (round_half_even (r / 2 powi (ulp_exp r))) :: rat) \<le> of_int m"
    by (simp only: of_int_le_iff)
  then show ?thesis
    unfolding round_double_alt [OF assms(1)] using u by (simp add: mult_right_mono)
qed

lemma round_double_ge:
  assumes "r \<noteq> 0" and "of_int m * 2 powi (ulp_exp r) \<le> r"
  shows "of_int m * 2 powi (ulp_exp r) \<le> round_double r"
proof -
  have u: "(0::rat) < 2 powi (ulp_exp r)" by simp
  have "of_int m \<le> r / 2 powi (ulp_exp r)"
    using assms(2) u by (simp add: pos_le_divide_eq)
  then have "m \<le> round_half_even (r / 2 powi (ulp_exp r))" by (rule round_half_even_ge)
  then have "(of_int m :: rat) \<le> of_int (round_half_even (r / 2 powi (ulp_exp r)))"
    by (simp only: of_int_le_iff)
  then show ?thesis
    unfolding round_double_alt [OF assms(1)] using u by (simp add: mult_right_mono)
qed

lemma round_double_err:
  assumes "r \<noteq> 0"
  shows "\<bar>round_double r - r\<bar> \<le> 2 powi (ulp_exp r) / 2"
proof -
  let ?u = "(2::rat) powi (ulp_exp r)"
  have u: "0 < ?u" by simp
  have "round_double r - r = (of_int (round_half_even (r / ?u)) - r / ?u) * ?u"
    unfolding round_double_alt [OF assms] using u by (simp add: algebra_simps)
  then have "\<bar>round_double r - r\<bar> = \<bar>of_int (round_half_even (r / ?u)) - r / ?u\<bar> * ?u"
    using u by (simp add: abs_mult)
  also have "\<dots> \<le> 1 / 2 * ?u"
    using round_half_even_err [of "r / ?u"] u by (intro mult_right_mono) auto
  finally show ?thesis by simp
qed

text \<open>Multiples of the unit in the last place: integers and powers of two.\<close>

lemma pow2_multiple:
  assumes "k \<le> n"
  shows "\<exists>m::int. 0 < m \<and> (2::rat) powi n = of_int m * 2 powi k"
proof -
  have "(2::rat) powi n = 2 powi (n - k) * 2 powi k"
    by (simp add: power_int_add [symmetric])
  also have "(2::rat) powi (n - k) = of_int (2 ^ nat (n - k))"
    using assms by (simp add: power_int_nonneg_exp)
  finally have "(2::rat) powi n = of_int (2 ^ nat (n - k)) * 2 powi k" .
  moreover have "(0::int) < 2 ^ nat (n - k)" by simp
  ultimately show ?thesis by blast
qed

lemma int_multiple:
  assumes "k \<le> 0"
  shows "\<exists>m::int. (of_int i :: rat) = of_int m * 2 powi k"
proof -
  from pow2_multiple [OF assms] obtain m where m: "(2::rat) powi 0 = of_int m * 2 powi k" by blast
  then have "(of_int i :: rat) = of_int i * (of_int m * 2 powi k)" by simp
  also have "\<dots> = of_int (i * m) * 2 powi k" by simp
  finally show ?thesis by blast
qed

lemma ulp_exp_le:
  assumes "r \<noteq> 0" and "\<bar>r\<bar> \<le> 2 powi n" and "- 1022 \<le> n"
  shows "ulp_exp r \<le> n - 52"
proof -
  have "\<bar>r\<bar> < 2 powi (n + 1)"
  proof -
    have "(2::rat) powi n < 2 powi (n + 1)" by (intro power_int_strict_increasing) auto
    with assms(2) show ?thesis by simp
  qed
  then have "ilog2 \<bar>r\<bar> < n + 1" using assms(1) by (intro ilog2_less) auto
  then show ?thesis using assms(3) by (simp add: ulp_exp_def)
qed

lemma round_double_abs_le_pow2:
  assumes "\<bar>r\<bar> \<le> 2 powi n" and "- 1022 \<le> n"
  shows "\<bar>round_double r\<bar> \<le> 2 powi n"
proof (cases "r = 0")
  case True
  then show ?thesis by (simp add: round_double_def)
next
  case False
  have "ulp_exp r \<le> n" using ulp_exp_le [OF False assms] by simp
  from pow2_multiple [OF this] obtain m where
    m: "(2::rat) powi n = of_int m * 2 powi (ulp_exp r)" by blast
  have "r \<le> of_int m * 2 powi (ulp_exp r)" using assms(1) m by simp
  from round_double_le [OF False this] have up: "round_double r \<le> 2 powi n" using m by simp
  have "of_int (- m) * 2 powi (ulp_exp r) \<le> r" using assms(1) m by simp
  from round_double_ge [OF False this] have "- (2 powi n) \<le> round_double r" using m by simp
  with up show ?thesis by simp
qed

lemma round_double_int_exact:
  assumes "\<bar>i\<bar> < 2 ^ 53"
  shows "round_double (of_int i) = of_int i"
proof (cases "i = 0")
  case True
  then show ?thesis by (simp add: round_double_def)
next
  case False
  let ?r = "of_int i :: rat"
  have nz: "?r \<noteq> 0" using False by simp
  have "\<bar>?r\<bar> \<le> 2 powi 53"
  proof -
    have "\<bar>?r\<bar> = of_int \<bar>i\<bar>" by simp
    also have "\<dots> \<le> of_int (2 ^ 53)" using assms by (simp only: of_int_le_iff)
    finally show ?thesis by simp
  qed
  moreover have "\<bar>?r\<bar> \<noteq> 2 powi 53"
  proof
    assume "\<bar>?r\<bar> = 2 powi 53"
    then have "(of_int \<bar>i\<bar> :: rat) = of_int (2 ^ 53)" by simp
    then have "\<bar>i\<bar> = 2 ^ 53" by (simp only: of_int_eq_iff)
    with assms show False by simp
  qed
  ultimately have "\<bar>?r\<bar> < 2 powi 53" by simp
  then have "ilog2 \<bar>?r\<bar> < 53" using nz by (intro ilog2_less) auto
  then have "ulp_exp ?r \<le> 0" by (simp add: ulp_exp_def)
  from int_multiple [OF this, of i] obtain m where m: "?r = of_int m * 2 powi (ulp_exp ?r)"
    by blast
  have "round_double ?r \<le> ?r"
    using round_double_le [OF nz, of m] m by simp
  moreover have "?r \<le> round_double ?r"
    using round_double_ge [OF nz, of m] m by simp
  ultimately show ?thesis by simp
qed

lemma fl64_fin:
  assumes "\<bar>r\<bar> \<le> 2 powi n" and "- 1022 \<le> n" and "n < 1024"
  shows "fl64 r = Fin (round_double r)"
proof -
  have "\<bar>round_double r\<bar> \<le> 2 powi n" using assms(1,2) by (rule round_double_abs_le_pow2)
  also have "(2::rat) powi n < 2 powi 1024"
    using assms(3) by (intro power_int_strict_increasing) auto
  finally have "\<bar>round_double r\<bar> < 2 ^ 1024" by simp
  then show ?thesis by (simp add: fl64_def Let_def)
qed

lemma round_double_nonneg:
  assumes "0 \<le> r"
  shows "0 \<le> round_double r"
proof (cases "r = 0")
  case True
  then show ?thesis by (simp add: round_double_def)
next
  case False
  then show ?thesis using round_double_ge [of r 0] assms by simp
qed

lemma round_double_le_int:
  assumes "0 \<le> r" and "r \<le> of_int N" and "N < 2 ^ 53"
  shows "round_double r \<le> of_int N"
proof (cases "r = 0")
  case True
  then show ?thesis using assms by (simp add: round_double_def)
next
  case False
  have "(of_int N :: rat) < of_int (2 ^ 53)" using assms(3) by (simp only: of_int_less_iff)
  then have "\<bar>r\<bar> < 2 powi 53" using assms(1,2) by simp
  then have "ilog2 \<bar>r\<bar> < 53" using False by (intro ilog2_less) auto
  then have "ulp_exp r \<le> 0" by (simp add: ulp_exp_def)
  from int_multiple [OF this, of N] obtain m where
    m: "(of_int N :: rat) = of_int m * 2 powi (ulp_exp r)" by blast
  show ?thesis using round_double_le [OF False, of m] assms(2) m by simp
qed

lemma fl64_range:
  assumes "0 \<le> r" and "r \<le> of_int N" and "N < 2 ^ 53"
  shows "fl64 r = Fin (round_double r)" "0 \<le> round_double r" "round_double r \<le> of_int N"
proof -
  show n: "0 \<le> round_double r" using assms(1) by (rule round_double_nonneg)
  show u: "round_double r \<le> of_int N" using assms by (rule round_double_le_int)
  have "(of_int N :: rat) < of_int (2 ^ 53)" using assms(3) by (simp only: of_int_less_iff)
  then have "round_double r < 2 ^ 53" using u by simp
  moreover have "(2::rat) ^ 53 < 2 ^ 1024" by simp
  ultimately have "\<bar>round_double r\<bar> < 2 ^ 1024" using n by simp
  then show "fl64 r = Fin (round_double r)" by (simp add: fl64_def Let_def)
qed

lemma float_of_int_exact:
  assumes "\<bar>i\<bar> < 2 ^ 53"
  shows "float_of_int i = Inr (Fin (of_int i))"
proof -
  have e: "round_double (of_int i) = of_int i" using assms by (rule round_double_int_exact)
  have "(of_int \<bar>i\<bar> :: rat) < of_int (2 ^ 53)" using assms by (simp only: of_int_less_iff)
  then have "\<bar>of_int i :: rat\<bar> < 2 ^ 53" by simp
  moreover have "(2::rat) ^ 53 < 2 ^ 1024" by simp
  ultimately have "\<bar>of_int i :: rat\<bar> < 2 ^ 1024" by (rule less_trans)
  then show ?thesis by (simp add: float_of_int_def fl64_def Let_def e)
qed

lemma pow2_succ: "(2::rat) powi (k + 1) = 2 powi k * 2"
  by (simp add: power_int_add)

lemma round_double_rel_err:
  assumes "2 powi (- 1022) \<le> \<bar>r\<bar>"
  shows "\<bar>round_double r - r\<bar> \<le> \<bar>r\<bar> / 2 ^ 53"
proof -
  have p: "0 < \<bar>r\<bar>"
  proof -
    have "(0::rat) < 2 powi (- 1022)" by simp
    then show ?thesis using assms by (rule less_le_trans)
  qed
  then have nz: "r \<noteq> 0" by auto
  have "- 1022 \<le> ilog2 \<bar>r\<bar>" using p assms by (rule ilog2_ge)
  then have u: "ulp_exp r = (ilog2 \<bar>r\<bar> - 53) + 1" by (simp add: ulp_exp_def)
  have "(2::rat) powi (ulp_exp r) / 2 = 2 powi (ilog2 \<bar>r\<bar> - 53)"
    unfolding u pow2_succ by simp
  also have "\<dots> = 2 powi (ilog2 \<bar>r\<bar>) / 2 ^ 53"
    by (simp add: power_int_diff)
  also have "\<dots> \<le> \<bar>r\<bar> / 2 ^ 53"
    using ilog2_bounds(1) [OF p] by (simp add: divide_right_mono)
  finally show ?thesis using round_double_err [OF nz] by simp
qed

text \<open>The floor of a number close to a multiple of \<open>1 / q\<close>.\<close>

lemma floor_near_fraction:
  fixes c :: rat
  assumes q: "0 < q" and c: "\<bar>c - of_int z / of_int q\<bar> < 1 / of_int q"
  shows "of_int \<lfloor>c\<rfloor> \<le> (of_int z / of_int q :: rat)"
    and "(of_int z / of_int q :: rat) - 1 \<le> of_int \<lfloor>c\<rfloor>"
proof -
  let ?n = "\<lfloor>c\<rfloor>"
  have qp: "(0::rat) < of_int q" using q by simp
  have f: "of_int ?n \<le> c" "c < of_int ?n + 1" by linarith+
  from c have c1: "c < of_int z / of_int q + 1 / of_int q"
    and c2: "of_int z / of_int q - 1 / of_int q < c" by linarith+
  have "of_int ?n * of_int q < (of_int z + 1 :: rat)"
  proof -
    have "of_int ?n < of_int z / of_int q + 1 / (of_int q :: rat)"
      using f(1) c1 by linarith
    then have "of_int ?n < (of_int z + 1) / (of_int q :: rat)"
      by (simp add: add_divide_distrib)
    then show ?thesis using qp by (simp add: pos_less_divide_eq)
  qed
  then have "(of_int (?n * q) :: rat) < of_int (z + 1)" by simp
  then have "?n * q < z + 1" by (simp only: of_int_less_iff)
  then have "?n * q \<le> z" by simp
  then have "(of_int (?n * q) :: rat) \<le> of_int z" by (simp only: of_int_le_iff)
  then have "of_int ?n * of_int q \<le> (of_int z :: rat)" by simp
  then show "of_int ?n \<le> (of_int z / of_int q :: rat)"
    using qp by (simp add: pos_le_divide_eq)
  have "(of_int z - 1 - of_int q :: rat) < of_int ?n * of_int q"
  proof -
    have "of_int z / of_int q - 1 / (of_int q :: rat) - 1 < of_int ?n"
      using f(2) c2 by linarith
    then have "(of_int z - 1) / (of_int q :: rat) - 1 < of_int ?n"
      by (simp add: diff_divide_distrib)
    then have "(of_int z - 1) / (of_int q :: rat) < of_int ?n + 1" by simp
    then have "(of_int z - 1 :: rat) < (of_int ?n + 1) * of_int q"
      using qp by (simp add: pos_divide_less_eq)
    then show ?thesis by (simp add: algebra_simps)
  qed
  then have "(of_int (z - 1 - q) :: rat) < of_int (?n * q)" by simp
  then have "z - 1 - q < ?n * q" by (simp only: of_int_less_iff)
  then have "z - q \<le> ?n * q" by simp
  then have "(of_int (z - q) :: rat) \<le> of_int (?n * q)" by (simp only: of_int_le_iff)
  then have "(of_int z - of_int q :: rat) \<le> of_int ?n * of_int q" by simp
  then have "(of_int z - of_int q) / (of_int q :: rat) \<le> of_int ?n"
    using qp by (simp add: pos_divide_le_eq)
  then show "(of_int z / of_int q :: rat) - 1 \<le> of_int ?n"
    using qp by (simp add: diff_divide_distrib)
qed

lemma int_lt_pow: "(i::int) < 2 ^ n \<Longrightarrow> (of_int i :: rat) < 2 ^ n"
proof -
  assume "i < 2 ^ n"
  then have "(of_int i :: rat) < of_int (2 ^ n)" by (simp only: of_int_less_iff)
  then show ?thesis by simp
qed

lemma scaled_value:
  assumes p: "0 \<le> p" "p < 2 ^ 24" and q: "1 \<le> q" "q < 2 ^ 24" and r: "1 \<le> r" "r < 2 ^ 24"
  shows "\<exists>a. scaled p q r = Inr (Fin a) \<and> 0 \<le> a \<and> a \<le> of_int (p * r)
           \<and> \<bar>a - of_int (p * r) / of_int q\<bar> \<le> of_int (p * r) / of_int q * (3 / 2 ^ 53)
           \<and> (p = 0 \<longrightarrow> a = 0) \<and> (0 < p \<longrightarrow> 2 powi (- 1022) \<le> a)"
proof -
  define v0 :: rat where "v0 = of_int p / of_int q"
  define q0 where "q0 = round_double v0"
  define a where "a = round_double (q0 * of_int r)"
  define e :: rat where "e = 1 / 2 ^ 53"
  have qp: "(1::rat) \<le> of_int q" using q(1) by simp
  have rp: "(1::rat) \<le> of_int r" using r(1) by simp
  have pp: "(0::rat) \<le> of_int p" using p(1) by simp
  have v0n: "0 \<le> v0" unfolding v0_def using pp qp by simp
  have v0p: "v0 \<le> of_int p"
  proof -
    have "of_int p / of_int q \<le> (of_int p / 1 :: rat)"
      using pp qp by (intro divide_left_mono) auto
    then show ?thesis by (simp add: v0_def)
  qed
  have p53: "p < 2 ^ 53"
  proof -
    have "(2::int) ^ 24 < 2 ^ 53" by simp
    with p(2) show ?thesis by (rule less_trans)
  qed
  note f1 = fl64_range [OF v0n v0p p53]
  have d: "int_truediv p q = Inr (Fin q0)"
    using q(1) f1(1) by (simp add: int_truediv_def q0_def v0_def)
  have r53: "\<bar>r\<bar> < 2 ^ 53"
  proof -
    have "(2::int) ^ 24 < 2 ^ 53" by simp
    with r(2) have "r < 2 ^ 53" by (rule less_trans)
    then show ?thesis using r(1) by simp
  qed
  have fr: "float_of_int r = Inr (Fin (of_int r))" using r53 by (rule float_of_int_exact)
  have q0n: "0 \<le> q0" and q0p: "q0 \<le> of_int p" using f1(2,3) by (simp_all add: q0_def)
  have prn: "0 \<le> q0 * of_int r" using q0n rp by simp
  have pru: "q0 * of_int r \<le> of_int (p * r)"
    using q0p rp by (simp add: mult_right_mono)
  have pr53: "p * r < 2 ^ 53"
  proof -
    have "p * r \<le> 2 ^ 24 * 2 ^ 24"
      using p q r by (intro mult_mono) auto
    also have "\<dots> < (2::int) ^ 53" by simp
    finally show ?thesis .
  qed
  note f2 = fl64_range [OF prn pru pr53]
  have s: "scaled p q r = Inr (Fin a)"
    using d fr f2(1) by (simp add: scaled_def float_mul_int_def a_def)
  have an: "0 \<le> a" and au: "a \<le> of_int (p * r)" using f2(2,3) by (simp_all add: a_def)
  have v: "of_int (p * r) / of_int q = v0 * of_int r" by (simp add: v0_def)
  have e: "0 < e" "e \<le> 1" by (simp_all add: e_def)
  show ?thesis
  proof (cases "p = 0")
    case True
    then have "a = 0" by (simp add: a_def q0_def v0_def round_double_def)
    then show ?thesis using s True by simp
  next
    case False
    then have p1: "1 \<le> p" using p(1) by simp
    have q24: "(of_int q :: rat) < 2 ^ 24" using q(2) by (rule int_lt_pow)
    have v0l: "1 / 2 ^ 24 \<le> v0"
    proof -
      have "(1 / 2 ^ 24 :: rat) \<le> 1 / of_int q"
        using q24 qp by (intro divide_left_mono) auto
      also have "\<dots> \<le> of_int p / of_int q"
        using p1 qp by (intro divide_right_mono) auto
      finally show ?thesis by (simp add: v0_def)
    qed
    have tiny: "(2::rat) powi (- 1022) \<le> 1 / 2 ^ 25"
    proof -
      have "(2::rat) powi (- 1022) \<le> 2 powi (- 25)" by (intro power_int_increasing) auto
      then show ?thesis by (simp add: power_int_minus_divide)
    qed
    have v0pos: "0 < v0"
    proof -
      have "(0::rat) < 1 / 2 ^ 24" by simp
      then show ?thesis using v0l by (rule less_le_trans)
    qed
    have "2 powi (- 1022) \<le> \<bar>v0\<bar>" using tiny v0l v0pos by simp
    from round_double_rel_err [OF this]
    have A: "\<bar>q0 - v0\<bar> \<le> v0 * e" using v0pos by (simp add: q0_def e_def)
    have q0u: "q0 \<le> 2 * v0"
    proof -
      have "v0 * e \<le> v0 * 1" using e v0n by (intro mult_left_mono) auto
      with A show ?thesis by simp
    qed
    have q0l: "v0 / 2 \<le> q0"
    proof -
      have "v0 * e \<le> v0 * (1 / 2)" using v0n by (intro mult_left_mono) (auto simp: e_def)
      with A show ?thesis by simp
    qed
    have q0rl: "1 / 2 ^ 25 \<le> q0 * of_int r"
    proof -
      have "(1 / 2 ^ 25 :: rat) \<le> v0 / 2" using v0l by simp
      also have "\<dots> \<le> q0" by (rule q0l)
      also have "\<dots> \<le> q0 * of_int r" using q0n rp by (simp add: mult_le_cancel_left1)
      finally show ?thesis .
    qed
    have "2 powi (- 1022) \<le> \<bar>q0 * of_int r\<bar>" using tiny q0rl prn by simp
    from round_double_rel_err [OF this]
    have B: "\<bar>a - q0 * of_int r\<bar> \<le> q0 * of_int r * e" using prn by (simp add: a_def e_def)
    have B2: "q0 * of_int r * e \<le> 2 * v0 * of_int r * e"
      using q0u rp e by (intro mult_right_mono) auto
    have A2: "\<bar>q0 * of_int r - v0 * of_int r\<bar> \<le> v0 * e * of_int r"
    proof -
      have "\<bar>q0 * of_int r - v0 * of_int r\<bar> = \<bar>q0 - v0\<bar> * of_int r"
        using rp by (simp add: abs_mult left_diff_distrib [symmetric])
      also have "\<dots> \<le> v0 * e * of_int r" using A rp by (intro mult_right_mono) auto
      finally show ?thesis .
    qed
    have "\<bar>a - v0 * of_int r\<bar> \<le> \<bar>a - q0 * of_int r\<bar> + \<bar>q0 * of_int r - v0 * of_int r\<bar>"
      by simp
    also have "\<dots> \<le> 2 * v0 * of_int r * e + v0 * e * of_int r"
      using B B2 A2 by linarith
    also have "\<dots> = v0 * of_int r * (3 / 2 ^ 53)" by (simp add: e_def algebra_simps)
    finally have err: "\<bar>a - v0 * of_int r\<bar> \<le> v0 * of_int r * (3 / 2 ^ 53)" .
    have al: "2 powi (- 1022) \<le> a"
    proof -
      have h: "q0 * of_int r * e \<le> q0 * of_int r * (1 / 2)"
        using prn by (intro mult_left_mono) (auto simp: e_def)
      have "q0 * of_int r / 2 \<le> a" using B h by linarith
      moreover have "1 / 2 ^ 26 \<le> q0 * of_int r / 2" using q0rl by simp
      moreover have "(2::rat) powi (- 1022) \<le> 1 / 2 ^ 26"
      proof -
        have "(2::rat) powi (- 1022) \<le> 2 powi (- 26)" by (intro power_int_increasing) auto
        then show ?thesis by (simp add: power_int_minus_divide)
      qed
      ultimately show ?thesis by linarith
    qed
    show ?thesis using s an au err al False unfolding v by blast
  qed
qed


lemma computer_axis:
  assumes p: "0 \<le> p" "p < 2 ^ 24" and q: "1 \<le> q" "q < 2 ^ 24" and r: "1 \<le> r" "r < 2 ^ 24"
  shows "\<exists>a n. scaled p q r = Inr (Fin a) \<and> int_of_float (Fin a) = Inr n \<and> 0 \<le> n
           \<and> of_int n \<le> (of_int (p * r) / of_int q :: rat)
           \<and> (of_int (p * r) / of_int q :: rat) - 1 \<le> of_int n"
proof -
  from scaled_value [OF assms] obtain a where
    a: "scaled p q r = Inr (Fin a)" "0 \<le> a" "a \<le> of_int (p * r)"
       "\<bar>a - of_int (p * r) / of_int q\<bar> \<le> of_int (p * r) / of_int q * (3 / 2 ^ 53)"
    by blast
  have qp: "(0::rat) < of_int q" using q(1) by simp
  have q0: "0 < q" using q(1) by simp
  have pr: "p * r \<le> 2 ^ 24 * 2 ^ 24" using p q r by (intro mult_mono) auto
  have prn: "0 \<le> p * r" using p(1) r(1) by simp
  have "(of_int (p * r) :: rat) \<le> of_int (2 ^ 24 * 2 ^ 24)" using pr by (simp only: of_int_le_iff)
  then have pr48: "(of_int (p * r) :: rat) \<le> 2 ^ 48" by simp
  have "of_int (p * r) / of_int q * (3 / 2 ^ 53) = (of_int (p * r) * (3 / 2 ^ 53)) / (of_int q :: rat)"
    by simp
  also have "\<dots> < 1 / of_int q"
  proof -
    have "(of_int (p * r) :: rat) * (3 / 2 ^ 53) \<le> 2 ^ 48 * (3 / 2 ^ 53)"
      using pr48 by (intro mult_right_mono) auto
    also have "\<dots> < 1" by simp
    finally have "(of_int (p * r) :: rat) * (3 / 2 ^ 53) < 1" .
    then show ?thesis using qp by (rule divide_strict_right_mono)
  qed
  finally have "\<bar>a - of_int (p * r) / of_int q\<bar> < 1 / of_int q" using a(4) by simp
  note fl = floor_near_fraction [OF q0 this]
  have "int_of_float (Fin a) = Inr \<lfloor>a\<rfloor>" using a(2) by simp
  moreover have "0 \<le> \<lfloor>a\<rfloor>" using a(2) by simp
  ultimately show ?thesis using a(1) fl by blast
qed

lemma api_axis:
  assumes p: "0 \<le> p" "p < 2 ^ 24" and q: "1 \<le> q" "q < 2 ^ 24" and r: "1 \<le> r" "r < 2 ^ 24"
      and o: "0 \<le> off" "off < 2 ^ 24"
  shows "\<exists>a n. scaled p q r = Inr (Fin a) \<and> int_of_sum (Fin a) off = Inr n
           \<and> of_int n \<le> (of_int (p * r) / of_int q + of_int off :: rat)
           \<and> (of_int (p * r) / of_int q + of_int off :: rat) - 1 \<le> of_int n"
proof -
  from scaled_value [OF p q r] obtain a where
    a: "scaled p q r = Inr (Fin a)" "0 \<le> a" "a \<le> of_int (p * r)"
       "\<bar>a - of_int (p * r) / of_int q\<bar> \<le> of_int (p * r) / of_int q * (3 / 2 ^ 53)"
       "p = 0 \<longrightarrow> a = 0" "0 < p \<longrightarrow> 2 powi (- 1022) \<le> a"
    by blast
  define v :: rat where "v = of_int (p * r) / of_int q"
  define c where "c = round_double (a + of_int off)"
  define e :: rat where "e = 1 / 2 ^ 53"
  have qp: "(0::rat) < of_int q" using q(1) by simp
  have q0: "0 < q" using q(1) by simp
  have on: "(0::rat) \<le> of_int off" using o(1) by simp
  have pr: "p * r \<le> 2 ^ 24 * 2 ^ 24" using p q r by (intro mult_mono) auto
  have prn: "0 \<le> p * r" using p(1) r(1) by simp
  have "(0::rat) \<le> of_int (p * r)" using prn by (simp only: of_int_0_le_iff)
  then have vn: "0 \<le> v" unfolding v_def using qp by (intro divide_nonneg_pos)
  have o53: "\<bar>off\<bar> < 2 ^ 53"
  proof -
    have "(2::int) ^ 24 < 2 ^ 53" by simp
    with o(2) have "off < 2 ^ 53" by (rule less_trans)
    then show ?thesis using o(1) by simp
  qed
  have fo: "float_of_int off = Inr (Fin (of_int off))" using o53 by (rule float_of_int_exact)
  have sn: "0 \<le> a + of_int off" using a(2) on by simp
  have su: "a + of_int off \<le> of_int (p * r + off)" using a(3) by simp
  have s53: "p * r + off < 2 ^ 53"
  proof -
    have "p * r + off < 2 ^ 24 * 2 ^ 24 + 2 ^ 24" using pr o(2) by simp
    also have "\<dots> < (2::int) ^ 53" by simp
    finally show ?thesis .
  qed
  note f = fl64_range [OF sn su s53]
  have cn: "0 \<le> c" using f(2) by (simp add: c_def)
  have isum: "int_of_sum (Fin a) off = Inr \<lfloor>c\<rfloor>"
    using fo f(1) cn by (simp add: int_of_sum_def float_add_int_def c_def)
  have w: "v + of_int off = of_int (p * r + off * q) / of_int q"
    using qp by (simp add: v_def add_divide_distrib)
  have zb: "(of_int (p * r + off * q) :: rat) \<le> 2 ^ 49"
  proof -
    have "off * q \<le> 2 ^ 24 * 2 ^ 24" using o q by (intro mult_mono) auto
    then have "p * r + off * q \<le> 2 ^ 49" using pr by simp
    then have "(of_int (p * r + off * q) :: rat) \<le> of_int (2 ^ 49)" by (simp only: of_int_le_iff)
    then show ?thesis by simp
  qed
  have close: "\<bar>c - (v + of_int off)\<bar> \<le> (v + of_int off) * (5 / 2 ^ 53)"
  proof (cases "a + of_int off = 0")
    case True
    then have "a = 0" "(of_int off :: rat) = 0" using a(2) on by simp_all
    then have "p = 0" using a(6) p(1) by (cases "p = 0") auto
    then have "v = 0" by (simp add: v_def)
    moreover have "c = 0" using True by (simp add: c_def round_double_def)
    ultimately show ?thesis using \<open>(of_int off :: rat) = 0\<close> by simp
  next
    case False
    have big: "2 powi (- 1022) \<le> a + of_int off"
    proof (cases "0 < p")
      case True
      then show ?thesis using a(6) on by simp
    next
      case np: False
      then have "a = 0" using a(5) p(1) by simp
      then have "off \<noteq> 0" using False by auto
      then have "1 \<le> off" using o(1) by simp
      then have "(1::rat) \<le> of_int off" by simp
      moreover have "(2::rat) powi (- 1022) \<le> 2 powi 0" by (intro power_int_increasing) auto
      ultimately show ?thesis using \<open>a = 0\<close> by simp
    qed
    then have "2 powi (- 1022) \<le> \<bar>a + of_int off\<bar>" using sn by simp
    from round_double_rel_err [OF this]
    have C: "\<bar>c - (a + of_int off)\<bar> \<le> (a + of_int off) * e" using sn by (simp add: c_def e_def)
    have A: "\<bar>a - v\<bar> \<le> v * (3 * e)" using a(4) by (simp add: v_def e_def)
    have e: "0 < e" "3 * e \<le> 1" by (simp_all add: e_def)
    have au: "a \<le> 2 * v"
    proof -
      have "v * (3 * e) \<le> v * 1" using vn e by (intro mult_left_mono) auto
      with A show ?thesis by simp
    qed
    have "(a + of_int off) * e \<le> (2 * v + of_int off) * e"
      using au e by (intro mult_right_mono) auto
    also have "\<dots> \<le> (2 * v + 2 * of_int off) * e"
      using on e by (intro mult_right_mono) auto
    finally have C2: "(a + of_int off) * e \<le> (v + of_int off) * (2 * e)" by (simp add: algebra_simps)
    have A2: "v * (3 * e) \<le> (v + of_int off) * (3 * e)"
      using on e by (intro mult_right_mono) auto
    have "\<bar>c - (v + of_int off)\<bar> \<le> \<bar>c - (a + of_int off)\<bar> + \<bar>a - v\<bar>" by simp
    also have "\<dots> \<le> (v + of_int off) * (2 * e) + (v + of_int off) * (3 * e)"
      using C C2 A A2 by linarith
    also have "\<dots> = (v + of_int off) * (5 * e)" by (simp add: algebra_simps)
    also have "5 * e = 5 / 2 ^ 53" by (simp add: e_def)
    finally show ?thesis .
  qed
  have "(v + of_int off) * (5 / 2 ^ 53) = (of_int (p * r + off * q) * (5 / 2 ^ 53)) / (of_int q :: rat)"
    unfolding w by simp
  also have "\<dots> < 1 / of_int q"
  proof -
    have "(of_int (p * r + off * q) :: rat) * (5 / 2 ^ 53) \<le> 2 ^ 49 * (5 / 2 ^ 53)"
      using zb by (intro mult_right_mono) auto
    also have "\<dots> < 1" by simp
    finally have "(of_int (p * r + off * q) :: rat) * (5 / 2 ^ 53) < 1" .
    then show ?thesis using qp by (rule divide_strict_right_mono)
  qed
  finally have "\<bar>c - of_int (p * r + off * q) / of_int q\<bar> < 1 / of_int q"
    using close unfolding w by simp
  note fl = floor_near_fraction [OF q0 this]
  show ?thesis using a(1) isum fl unfolding w [symmetric] v_def by blast
qed

section \<open>\<open>scale_coordinates\<close> on numbers\<close>

text \<open>
  On two \<open>int\<close>s, \<open>scale_coordinates_num\<close> is \<open>scale_coordinates\<close>: the results of the
  next section hold for the calls that \<open>_execute_tool\<close> makes with integer coordinates.
\<close>

lemma scaled_num_int: "scaled_num (PInt a) b c = scaled a b c"
  by (simp add: scaled_num_def scaled_def)

lemma py_max_int_int: "py_max_int (PInt a) i = PInt (max a i)"
  by (simp add: py_max_int_def max_def)

lemma py_min_int_int: "py_min_int (PInt a) i = PInt (min a i)"
  by (simp add: py_min_int_def min_def)

lemma num_lt_int_0: "(if num_lt_int (PInt x) 0 then PInt 0 else PInt x) = PInt (if x < 0 then 0 else x)"
  by simp

lemma scale_num_api_disabled:
  assumes "\<not> enabled (scaling (config self))"
  shows "scale_coordinates_num self API (PInt x) (PInt y) =
     (case scale_coordinates self API x y of
        Inl e \<Rightarrow> Inl e
      | Inr (a, b) \<Rightarrow> Inr (PInt a, PInt b))"
  using assms
  by (simp add: scale_coordinates_num_def scale_coordinates_def Let_def
        py_max_int_int py_min_int_int clamp_axis_def)

lemma scale_num_computer_disabled:
  assumes "\<not> enabled (scaling (config self))"
  shows "scale_coordinates_num self COMPUTER (PInt x) (PInt y) =
     (case scale_coordinates self COMPUTER x y of
        Inl e \<Rightarrow> Inl e
      | Inr (a, b) \<Rightarrow> Inr (PInt a, PInt b))"
  using assms
  by (simp add: scale_coordinates_num_def scale_coordinates_def Let_def)


lemma num_if: "(if c then PInt a else PInt b) = PInt (if c then a else b)"
  by simp

lemma scale_chain:
  "(case A of Inl e \<Rightarrow> Inl e | Inr sx \<Rightarrow>
    (case B of Inl e \<Rightarrow> Inl e | Inr sy \<Rightarrow>
    (case F sx of Inl e \<Rightarrow> Inl e | Inr fx \<Rightarrow>
    (case G sy of Inl e \<Rightarrow> Inl e | Inr fy \<Rightarrow> Inr (PInt (H fx), PInt (K fy))))))
   = (case (case A of Inl e \<Rightarrow> Inl e | Inr sx \<Rightarrow>
           (case B of Inl e \<Rightarrow> Inl e | Inr sy \<Rightarrow>
           (case F sx of Inl e \<Rightarrow> Inl e | Inr fx \<Rightarrow>
           (case G sy of Inl e \<Rightarrow> Inl e | Inr fy \<Rightarrow> Inr (H fx, K fy))))) of
        Inl e \<Rightarrow> Inl e
      | Inr (a, b) \<Rightarrow> Inr (PInt a, PInt b))"
  by (simp split: sum.splits)

lemma scale_num_api_enabled:
  assumes "enabled (scaling (config self))"
  shows "scale_coordinates_num self API (PInt x) (PInt y) =
     (case scale_coordinates self API x y of
        Inl e \<Rightarrow> Inl e
      | Inr (a, b) \<Rightarrow> Inr (PInt a, PInt b))"
  unfolding scale_coordinates_num_def scale_coordinates_def Let_def
  by (simp only: assms simp_thms if_False if_True num_lt_int.simps num_if scaled_num_int)
     (rule scale_chain)

lemma scale_num_computer_enabled:
  assumes "enabled (scaling (config self))"
  shows "scale_coordinates_num self COMPUTER (PInt x) (PInt y) =
     (case scale_coordinates self COMPUTER x y of
        Inl e \<Rightarrow> Inl e
      | Inr (a, b) \<Rightarrow> Inr (PInt a, PInt b))"
  unfolding scale_coordinates_num_def scale_coordinates_def Let_def
  by (simp only: assms simp_thms if_False if_True num_lt_int.simps int_lt_num.simps num_if
        scaled_num_int num_sub_int.simps sum.case ScalingSource.simps)
     (rule scale_chain [where H = "\<lambda>z. z" and K = "\<lambda>z. z"])

lemma scale_coordinates_num_int:
  "scale_coordinates_num self source (PInt x) (PInt y) =
     (case scale_coordinates self source x y of
        Inl e \<Rightarrow> Inl e
      | Inr (a, b) \<Rightarrow> Inr (PInt a, PInt b))"
  using scale_num_api_enabled scale_num_computer_enabled
        scale_num_api_disabled scale_num_computer_disabled
  by (cases source; cases "enabled (scaling (config self))") blast+

section \<open>Properties of \<open>scale_coordinates\<close>\<close>

lemma clamp_axis_range:
  "1 \<le> extent \<Longrightarrow> off \<le> clamp_axis v off extent \<and> clamp_axis v off extent \<le> off + extent - 1"
  by (auto simp: clamp_axis_def)

lemma fl64_cases: "(\<exists>v. fl64 r = Fin v) \<or> (\<exists>s. fl64 r = Inf s)"
  by (simp add: fl64_def Let_def)

lemma int_truediv_cases:
  "b \<noteq> 0 \<Longrightarrow> (\<exists>v. int_truediv a b = Inr (Fin v)) \<or> (\<exists>s. int_truediv a b = Inl (OverflowError s))"
  using fl64_cases [of "of_int a / of_int b"] by (auto simp: int_truediv_def)

lemma float_of_int_cases:
  "(\<exists>v. float_of_int i = Inr (Fin v)) \<or> (\<exists>s. float_of_int i = Inl (OverflowError s))"
  using fl64_cases [of "of_int i"] by (auto simp: float_of_int_def)

lemma scaled_cases:
  assumes "b \<noteq> 0"
  shows "(\<exists>v. scaled a b c = Inr (Fin v)) \<or> (\<exists>s. scaled a b c = Inr (Inf s))
         \<or> (\<exists>s. scaled a b c = Inl (OverflowError s))"
proof -
  from int_truediv_cases [OF assms, of a] show ?thesis
  proof
    assume "\<exists>v. int_truediv a b = Inr (Fin v)"
    then obtain v where v: "int_truediv a b = Inr (Fin v)" ..
    from float_of_int_cases [of c] show ?thesis
    proof
      assume "\<exists>w. float_of_int c = Inr (Fin w)"
      then obtain w where "float_of_int c = Inr (Fin w)" ..
      then show ?thesis using v fl64_cases [of "v * w"]
        by (auto simp: scaled_def float_mul_int_def)
    next
      assume "\<exists>s. float_of_int c = Inl (OverflowError s)"
      then show ?thesis using v by (auto simp: scaled_def float_mul_int_def)
    qed
  next
    assume "\<exists>s. int_truediv a b = Inl (OverflowError s)"
    then show ?thesis by (auto simp: scaled_def)
  qed
qed

lemma int_of_sum_cases:
  assumes "(\<exists>v. f = Fin v) \<or> (\<exists>s. f = Inf s)"
  shows "(\<exists>n. int_of_sum f off = Inr n) \<or> (\<exists>s. int_of_sum f off = Inl (OverflowError s))"
proof -
  from float_of_int_cases [of off] show ?thesis
  proof
    assume "\<exists>w. float_of_int off = Inr (Fin w)"
    then obtain w where w: "float_of_int off = Inr (Fin w)" ..
    from assms show ?thesis
    proof
      assume "\<exists>v. f = Fin v"
      then obtain v where "f = Fin v" ..
      then show ?thesis using w fl64_cases [of "v + w"]
        by (auto simp: int_of_sum_def float_add_int_def)
    next
      assume "\<exists>s. f = Inf s"
      then show ?thesis using w by (auto simp: int_of_sum_def float_add_int_def)
    qed
  next
    assume "\<exists>s. float_of_int off = Inl (OverflowError s)"
    then show ?thesis by (auto simp: int_of_sum_def float_add_int_def)
  qed
qed

lemma scale_api_enabled:
  assumes "enabled (scaling (config self))"
  shows "scale_coordinates self API x y =
     (case scaled (nonneg_coord x) (base_width (scaling (config self))) (screen_width self) of
        Inl e \<Rightarrow> Inl e
      | Inr scale_x \<Rightarrow>
     (case scaled (nonneg_coord y) (base_height (scaling (config self))) (screen_height self) of
        Inl e \<Rightarrow> Inl e
      | Inr scale_y \<Rightarrow>
     (case int_of_sum scale_x (offset_x self) of
        Inl e \<Rightarrow> Inl e
      | Inr final_x \<Rightarrow>
     (case int_of_sum scale_y (offset_y self) of
        Inl e \<Rightarrow> Inl e
      | Inr final_y \<Rightarrow>
          Inr (clamp_axis final_x (offset_x self) (screen_width self),
               clamp_axis final_y (offset_y self) (screen_height self))))))"
  unfolding scale_coordinates_def nonneg_coord_def Let_def
  by (simp only: assms simp_thms if_False if_True)

lemma scale_api_disabled:
  assumes "\<not> enabled (scaling (config self))"
  shows "scale_coordinates self API x y =
     Inr (clamp_axis (nonneg_coord x + offset_x self) (offset_x self) (screen_width self),
          clamp_axis (nonneg_coord y + offset_y self) (offset_y self) (screen_height self))"
  unfolding scale_coordinates_def nonneg_coord_def Let_def
  by (simp only: assms simp_thms if_False if_True)

lemma scale_computer_disabled:
  assumes "\<not> enabled (scaling (config self))"
  shows "scale_coordinates self COMPUTER x y = Inr (nonneg_coord x, nonneg_coord y)"
  unfolding scale_coordinates_def nonneg_coord_def Let_def
  by (simp only: assms simp_thms if_False if_True ScalingSource.simps)

lemma scale_api_value:
  assumes "enabled (scaling (config self))"
      and "api_axis_value (nonneg_coord x) (base_width (scaling (config self)))
             (screen_width self) (offset_x self) = Inr nx"
      and "api_axis_value (nonneg_coord y) (base_height (scaling (config self)))
             (screen_height self) (offset_y self) = Inr ny"
  shows "scale_coordinates self API x y =
           Inr (clamp_axis nx (offset_x self) (screen_width self),
                clamp_axis ny (offset_y self) (screen_height self))"
  using assms(2,3) unfolding scale_api_enabled [OF assms(1)]
  by (auto simp: api_axis_value_def split: sum.splits)

lemma scale_api_shape:
  assumes "scale_coordinates self API x y = Inr (a, b)"
  shows "\<exists>vx vy. a = clamp_axis vx (offset_x self) (screen_width self)
               \<and> b = clamp_axis vy (offset_y self) (screen_height self)"
proof (cases "enabled (scaling (config self))")
  case True
  show ?thesis
    using assms unfolding scale_api_enabled [OF True]
    by (auto split: sum.splits)
next
  case False
  show ?thesis
    using assms unfolding scale_api_disabled [OF False] by auto
qed

lemma scale_api_error:
  assumes "scale_coordinates self API x y = Inl e"
      and "base_width (scaling (config self)) \<noteq> 0"
      and "base_height (scaling (config self)) \<noteq> 0"
  shows "enabled (scaling (config self)) \<and> (\<exists>s. e = OverflowError s)"
proof (cases "enabled (scaling (config self))")
  case False
  then show ?thesis using assms(1) unfolding scale_api_disabled [OF False] by simp
next
  case True
  note sx = scaled_cases [OF assms(2), of "nonneg_coord x" "screen_width self"]
  note sy = scaled_cases [OF assms(3), of "nonneg_coord y" "screen_height self"]
  have "\<exists>s. e = OverflowError s"
  proof (cases "scaled (nonneg_coord x) (base_width (scaling (config self))) (screen_width self)")
    case (Inl e1)
    then show ?thesis using assms(1) sx unfolding scale_api_enabled [OF True] by auto
  next
    case fx: (Inr f1)
    show ?thesis
    proof (cases "scaled (nonneg_coord y) (base_height (scaling (config self)))
                    (screen_height self)")
      case (Inl e2)
      then show ?thesis using assms(1) fx sy unfolding scale_api_enabled [OF True] by auto
    next
      case fy: (Inr f2)
      have c1: "(\<exists>v. f1 = Fin v) \<or> (\<exists>s. f1 = Inf s)" using sx fx by auto
      have c2: "(\<exists>v. f2 = Fin v) \<or> (\<exists>s. f2 = Inf s)" using sy fy by auto
      note i1 = int_of_sum_cases [OF c1, of "offset_x self"]
      note i2 = int_of_sum_cases [OF c2, of "offset_y self"]
      show ?thesis
        using assms(1) fx fy i1 i2 unfolding scale_api_enabled [OF True]
        by (auto split: sum.splits)
    qed
  qed
  then show ?thesis using True by simp
qed

lemma scaled_unit:
  assumes "0 \<le> p" and "p \<le> q" and "1 \<le> q" and "1 \<le> r" and "r < 2 ^ 53"
  shows "\<exists>a. scaled p q r = Inr (Fin a) \<and> 0 \<le> a \<and> a \<le> of_int r"
proof -
  define v0 :: rat where "v0 = of_int p / of_int q"
  have qp: "(0::rat) < of_int q" using assms(3) by simp
  have "(of_int p :: rat) \<le> of_int q" using assms(2) by (simp only: of_int_le_iff)
  then have v1: "v0 \<le> of_int 1" unfolding v0_def using qp by (simp add: pos_divide_le_eq)
  have "(0::rat) \<le> of_int p" using assms(1) by (simp only: of_int_0_le_iff)
  then have v0n: "0 \<le> v0" unfolding v0_def using qp by (intro divide_nonneg_pos)
  have one: "(1::int) < 2 ^ 53" by simp
  note f1 = fl64_range [OF v0n v1 one]
  have d: "int_truediv p q = Inr (Fin (round_double v0))"
    using assms(3) f1(1) by (simp add: int_truediv_def v0_def)
  have "\<bar>r\<bar> < 2 ^ 53" using assms(4,5) by simp
  then have fr: "float_of_int r = Inr (Fin (of_int r))" by (rule float_of_int_exact)
  have rp: "(0::rat) \<le> of_int r" using assms(4) by simp
  have n: "0 \<le> round_double v0 * of_int r" using f1(2) rp by simp
  have "round_double v0 * of_int r \<le> 1 * of_int r"
    using f1(3) rp by (intro mult_right_mono) auto
  then have u: "round_double v0 * of_int r \<le> of_int r" by simp
  note f2 = fl64_range [OF n u assms(5)]
  have "scaled p q r = Inr (Fin (round_double (round_double v0 * of_int r)))"
    using d fr f2(1) by (simp add: scaled_def float_mul_int_def)
  then show ?thesis using f2(2,3) by blast
qed

lemma computer_axis_value_range:
  assumes "0 \<le> p" and "p \<le> q" and "1 \<le> q" and "1 \<le> r" and "r < 2 ^ 53"
  shows "\<exists>n. computer_axis_value p q r = Inr n \<and> 0 \<le> n \<and> n \<le> r"
proof -
  from scaled_unit [OF assms] obtain a where
    a: "scaled p q r = Inr (Fin a)" "0 \<le> a" "a \<le> of_int r" by blast
  have "computer_axis_value p q r = Inr \<lfloor>a\<rfloor>"
    using a(1,2) by (simp add: computer_axis_value_def)
  moreover have "0 \<le> \<lfloor>a\<rfloor>" using a(2) by simp
  moreover have "\<lfloor>a\<rfloor> \<le> r" using a(3) by (simp add: floor_le_iff)
  ultimately show ?thesis by blast
qed

lemma rel_coord_eq: "rel_coord x off w = min (max (max x 0 - off) 0) w"
  by (simp add: rel_coord_def min_def max_def)

lemma scale_computer_enabled:
  assumes "enabled (scaling (config self))"
  shows "scale_coordinates self COMPUTER x y =
     (case scaled (rel_coord x (offset_x self) (screen_width self)) (screen_width self)
             (base_width (scaling (config self))) of
           Inl e \<Rightarrow> Inl e
         | Inr fx \<Rightarrow>
             (case scaled (rel_coord y (offset_y self) (screen_height self)) (screen_height self)
                     (base_height (scaling (config self))) of
                Inl e \<Rightarrow> Inl e
              | Inr fy \<Rightarrow>
                  (case int_of_float fx of
                     Inl e \<Rightarrow> Inl e
                   | Inr lx \<Rightarrow> (case int_of_float fy of Inl e \<Rightarrow> Inl e
                                   | Inr ly \<Rightarrow> Inr (lx, ly)))))"
  unfolding scale_coordinates_def rel_coord_def Let_def
  by (simp only: assms simp_thms if_False if_True ScalingSource.simps)

lemma scale_computer_value:
  assumes "enabled (scaling (config self))"
      and "computer_axis_value (rel_coord x (offset_x self) (screen_width self))
             (screen_width self) (base_width (scaling (config self))) = Inr lx"
      and "computer_axis_value (rel_coord y (offset_y self) (screen_height self))
             (screen_height self) (base_height (scaling (config self))) = Inr ly"
  shows "scale_coordinates self COMPUTER x y = Inr (lx, ly)"
  using assms(2,3) unfolding scale_computer_enabled [OF assms(1)]
  by (auto simp: computer_axis_value_def split: sum.splits)

lemma api_axis_total:
  assumes p: "0 \<le> p" "p < 2 ^ 64" and b: "1 \<le> b" and w: "1 \<le> w" "w < 2 ^ 53"
      and o: "\<bar>off\<bar> < 2 ^ 53"
  shows "\<exists>n. api_axis_value p b w off = Inr n"
proof -
  define v0 :: rat where "v0 = of_int p / of_int b"
  define q0 where "q0 = round_double v0"
  define a where "a = round_double (q0 * of_int w)"
  have bp: "(1::rat) \<le> of_int b" using b by simp
  have pp: "(0::rat) \<le> of_int p" using p(1) by simp
  have v0n: "0 \<le> v0" unfolding v0_def using pp bp by simp
  have "of_int p / of_int b \<le> (of_int p / 1 :: rat)"
    using pp bp by (intro divide_left_mono) auto
  moreover have "(of_int p :: rat) < 2 ^ 64" using p(2) by (rule int_lt_pow)
  ultimately have v0u: "\<bar>v0\<bar> \<le> 2 powi 64" using v0n by (simp add: v0_def)
  have f1: "fl64 v0 = Fin q0" unfolding q0_def using v0u by (rule fl64_fin) simp_all
  have q0u: "\<bar>q0\<bar> \<le> 2 powi 64" unfolding q0_def using v0u
    by (rule round_double_abs_le_pow2) simp
  have d: "int_truediv p b = Inr (Fin q0)"
    using b f1 by (simp add: int_truediv_def v0_def)
  have "\<bar>w\<bar> < 2 ^ 53" using w by simp
  then have fw: "float_of_int w = Inr (Fin (of_int w))" by (rule float_of_int_exact)
  have w53: "\<bar>of_int w :: rat\<bar> \<le> 2 ^ 53"
  proof -
    have "(of_int w :: rat) < 2 ^ 53" using w(2) by (rule int_lt_pow)
    then show ?thesis using w(1) by simp
  qed
  have "\<bar>q0 * of_int w\<bar> = \<bar>q0\<bar> * \<bar>of_int w :: rat\<bar>" by (rule abs_mult)
  also have "\<dots> \<le> 2 powi 64 * 2 ^ 53"
    using q0u w53 by (intro mult_mono) auto
  also have "\<dots> = 2 powi 117" by simp
  finally have pu: "\<bar>q0 * of_int w\<bar> \<le> 2 powi 117" .
  have f2: "fl64 (q0 * of_int w) = Fin a" unfolding a_def using pu by (rule fl64_fin) simp_all
  have au: "\<bar>a\<bar> \<le> 2 powi 117" unfolding a_def using pu
    by (rule round_double_abs_le_pow2) simp
  have s: "scaled p b w = Inr (Fin a)"
    using d fw f2 by (simp add: scaled_def float_mul_int_def)
  have fo: "float_of_int off = Inr (Fin (of_int off))" using o by (rule float_of_int_exact)
  have o53: "\<bar>of_int off :: rat\<bar> \<le> 2 ^ 53"
  proof -
    have "(of_int \<bar>off\<bar> :: rat) < of_int (2 ^ 53)" using o by (simp only: of_int_less_iff)
    then show ?thesis by simp
  qed
  have "\<bar>a + of_int off\<bar> \<le> \<bar>a\<bar> + \<bar>of_int off :: rat\<bar>" by simp
  also have "\<dots> \<le> 2 powi 117 + 2 ^ 53" using au o53 by simp
  also have "\<dots> \<le> 2 powi 118" by simp
  finally have su: "\<bar>a + of_int off\<bar> \<le> 2 powi 118" .
  have f3: "fl64 (a + of_int off) = Fin (round_double (a + of_int off))"
    using su by (rule fl64_fin) simp_all
  have "\<exists>n. int_of_sum (Fin a) off = Inr n"
    using fo f3 by (simp add: int_of_sum_def float_add_int_def)
  then show ?thesis using s by (simp add: api_axis_value_def)
qed

lemma nonneg_coord_eq: "nonneg_coord x = max x 0"
  by (simp add: nonneg_coord_def max_def)

lemma rel_coord_range: "0 \<le> w \<Longrightarrow> 0 \<le> rel_coord x off w \<and> rel_coord x off w \<le> w"
  by (simp add: rel_coord_eq)

lemma scale_api_range:
  assumes "scale_coordinates self API x y = Inr (a, b)"
      and "1 \<le> screen_width self" and "1 \<le> screen_height self"
  shows "offset_x self \<le> a \<and> a \<le> offset_x self + screen_width self - 1
       \<and> offset_y self \<le> b \<and> b \<le> offset_y self + screen_height self - 1"
proof -
  from scale_api_shape [OF assms(1)] obtain vx vy where
    v: "a = clamp_axis vx (offset_x self) (screen_width self)"
       "b = clamp_axis vy (offset_y self) (screen_height self)" by blast
  show ?thesis
    unfolding v
    using clamp_axis_range [OF assms(2), of "offset_x self" vx]
          clamp_axis_range [OF assms(3), of "offset_y self" vy] by simp
qed

lemma scale_api_total:
  assumes "x < 2 ^ 64" and "y < 2 ^ 64"
      and "1 \<le> base_width (scaling (config self))"
      and "1 \<le> base_height (scaling (config self))"
      and "1 \<le> screen_width self" and "screen_width self < 2 ^ 53"
      and "1 \<le> screen_height self" and "screen_height self < 2 ^ 53"
      and "\<bar>offset_x self\<bar> < 2 ^ 53" and "\<bar>offset_y self\<bar> < 2 ^ 53"
  shows "\<exists>a b. scale_coordinates self API x y = Inr (a, b)"
proof (cases "enabled (scaling (config self))")
  case False
  then show ?thesis unfolding scale_api_disabled [OF False] by simp
next
  case True
  have x: "0 \<le> nonneg_coord x" "nonneg_coord x < 2 ^ 64"
    using assms(1) by (simp_all add: nonneg_coord_def)
  have y: "0 \<le> nonneg_coord y" "nonneg_coord y < 2 ^ 64"
    using assms(2) by (simp_all add: nonneg_coord_def)
  from api_axis_total [OF x assms(3) assms(5,6) assms(9)] obtain nx where
    nx: "api_axis_value (nonneg_coord x) (base_width (scaling (config self)))
           (screen_width self) (offset_x self) = Inr nx" ..
  from api_axis_total [OF y assms(4) assms(7,8) assms(10)] obtain ny where
    ny: "api_axis_value (nonneg_coord y) (base_height (scaling (config self)))
           (screen_height self) (offset_y self) = Inr ny" ..
  show ?thesis unfolding scale_api_value [OF True nx ny] by simp
qed

lemma scale_computer_range:
  assumes "enabled (scaling (config self))"
      and "1 \<le> screen_width self" and "1 \<le> screen_height self"
      and "1 \<le> base_width (scaling (config self))"
      and "base_width (scaling (config self)) < 2 ^ 53"
      and "1 \<le> base_height (scaling (config self))"
      and "base_height (scaling (config self)) < 2 ^ 53"
  shows "\<exists>a b. scale_coordinates self COMPUTER x y = Inr (a, b)
           \<and> 0 \<le> a \<and> a \<le> base_width (scaling (config self))
           \<and> 0 \<le> b \<and> b \<le> base_height (scaling (config self))"
proof -
  have w0: "0 \<le> screen_width self" and h0: "0 \<le> screen_height self"
    using assms(2,3) by simp_all
  note rx = rel_coord_range [OF w0, of x "offset_x self"]
  note ry = rel_coord_range [OF h0, of y "offset_y self"]
  from computer_axis_value_range [OF conjunct1 [OF rx] conjunct2 [OF rx] assms(2) assms(4,5)]
  obtain lx where lx: "computer_axis_value (rel_coord x (offset_x self) (screen_width self))
       (screen_width self) (base_width (scaling (config self))) = Inr lx"
     "0 \<le> lx" "lx \<le> base_width (scaling (config self))" by blast
  from computer_axis_value_range [OF conjunct1 [OF ry] conjunct2 [OF ry] assms(3) assms(6,7)]
  obtain ly where ly: "computer_axis_value (rel_coord y (offset_y self) (screen_height self))
       (screen_height self) (base_height (scaling (config self))) = Inr ly"
     "0 \<le> ly" "ly \<le> base_height (scaling (config self))" by blast
  show ?thesis
    unfolding scale_computer_value [OF assms(1) lx(1) ly(1)]
    using lx(2,3) ly(2,3) by simp
qed

lemma scale_api_error_large:
  assumes "scale_coordinates self API x y = Inl e"
      and "1 \<le> base_width (scaling (config self))"
      and "1 \<le> base_height (scaling (config self))"
      and "1 \<le> screen_width self" and "screen_width self < 2 ^ 53"
      and "1 \<le> screen_height self" and "screen_height self < 2 ^ 53"
      and "\<bar>offset_x self\<bar> < 2 ^ 53" and "\<bar>offset_y self\<bar> < 2 ^ 53"
  shows "2 ^ 64 \<le> max x y"
proof (rule ccontr)
  assume "\<not> 2 ^ 64 \<le> max x y"
  then have "x < 2 ^ 64" "y < 2 ^ 64" by simp_all
  from scale_api_total [OF this assms(2-)] show False using assms(1) by simp
qed

text \<open>
  C5.  Let the screen and the logical display have at least one pixel on each axis, with
  every dimension and offset below \<open>2 ^ 53\<close> in size.  Toward the OS (\<open>API\<close>), every
  pair that \<open>scale_coordinates\<close> returns lies in \<open>[offset, offset + real_dimension - 1]\<close>
  on each axis, and the only other outcome is an \<open>OverflowError\<close>, raised with scaling
  enabled for an input of at least \<open>2 ^ 64\<close>.  Toward the model (\<open>COMPUTER\<close>) a pair is
  always returned: with scaling enabled it lies in \<open>[0, logical_dimension]\<close> on each
  axis, and with scaling disabled it is the input with negative values replaced by
  \<open>0\<close>, whatever the logical dimension.
\<close>

theorem scale_coordinates_clamped:
  assumes "1 \<le> screen_width self" and "screen_width self < 2 ^ 53"
      and "1 \<le> screen_height self" and "screen_height self < 2 ^ 53"
      and "1 \<le> base_width (scaling (config self))"
      and "base_width (scaling (config self)) < 2 ^ 53"
      and "1 \<le> base_height (scaling (config self))"
      and "base_height (scaling (config self)) < 2 ^ 53"
      and "\<bar>offset_x self\<bar> < 2 ^ 53" and "\<bar>offset_y self\<bar> < 2 ^ 53"
  shows "(case scale_coordinates self API x y of
            Inr (a, b) \<Rightarrow>
              offset_x self \<le> a \<and> a \<le> offset_x self + screen_width self - 1
            \<and> offset_y self \<le> b \<and> b \<le> offset_y self + screen_height self - 1
          | Inl e \<Rightarrow>
              enabled (scaling (config self)) \<and> 2 ^ 64 \<le> max x y
            \<and> (\<exists>s. e = OverflowError s))
       \<and> (\<exists>a b. scale_coordinates self COMPUTER x y = Inr (a, b)
            \<and> (if enabled (scaling (config self))
                then 0 \<le> a \<and> a \<le> base_width (scaling (config self))
                   \<and> 0 \<le> b \<and> b \<le> base_height (scaling (config self))
                else a = max x 0 \<and> b = max y 0))"
proof
  show "case scale_coordinates self API x y of
            Inr (a, b) \<Rightarrow>
              offset_x self \<le> a \<and> a \<le> offset_x self + screen_width self - 1
            \<and> offset_y self \<le> b \<and> b \<le> offset_y self + screen_height self - 1
          | Inl e \<Rightarrow>
              enabled (scaling (config self)) \<and> 2 ^ 64 \<le> max x y
            \<and> (\<exists>s. e = OverflowError s)"
  proof (cases "scale_coordinates self API x y")
    case (Inl e)
    have b0: "base_width (scaling (config self)) \<noteq> 0"
             "base_height (scaling (config self)) \<noteq> 0" using assms(5,7) by simp_all
    from scale_api_error [OF Inl b0]
         scale_api_error_large [OF Inl assms(5) assms(7) assms(1,2) assms(3,4) assms(9,10)]
    show ?thesis unfolding Inl by simp
  next
    case (Inr ab)
    obtain a b where ab: "ab = (a, b)" by (cases ab)
    from scale_api_range [OF Inr [unfolded ab] assms(1) assms(3)]
    show ?thesis unfolding Inr ab by simp
  qed
next
  show "\<exists>a b. scale_coordinates self COMPUTER x y = Inr (a, b)
            \<and> (if enabled (scaling (config self))
                then 0 \<le> a \<and> a \<le> base_width (scaling (config self))
                   \<and> 0 \<le> b \<and> b \<le> base_height (scaling (config self))
                else a = max x 0 \<and> b = max y 0)"
  proof (cases "enabled (scaling (config self))")
    case True
    from scale_computer_range [OF True assms(1) assms(3) assms(5,6) assms(7,8)]
    show ?thesis using True by simp
  next
    case False
    show ?thesis unfolding scale_computer_disabled [OF False] nonneg_coord_eq
      using False by simp
  qed
qed

theorem scale_coordinates_clamped_witness:
  "(case scale_coordinates tank_controller_init API 5000 (- 3) of
      Inr (a, b) \<Rightarrow> 0 \<le> a \<and> a \<le> 1919 \<and> 0 \<le> b \<and> b \<le> 1079
    | Inl e \<Rightarrow> False)
   \<and> (\<exists>a b. scale_coordinates tank_controller_init COMPUTER 5000 (- 3) = Inr (a, b)
        \<and> 0 \<le> a \<and> a \<le> 1366 \<and> 0 \<le> b \<and> b \<le> 768)"
  using scale_coordinates_clamped [of tank_controller_init 5000 "- 3"]
  by (simp add: tank_controller_init_def split: sum.splits prod.splits)

theorem scale_coordinates_unscaled_not_clamped:
  "scale_coordinates unscaled_controller COMPUTER 5000 900 = Inr (5000, 900)
   \<and> base_width (scaling (config unscaled_controller)) = 1366
   \<and> base_height (scaling (config unscaled_controller)) = 768"
  by (simp add: scale_coordinates_def unscaled_controller_def tank_controller_init_def)

lemma api_axis_value_bounds:
  assumes "0 \<le> p" and "p < 2 ^ 24" and "1 \<le> q" and "q < 2 ^ 24" and "1 \<le> r" and "r < 2 ^ 24"
      and "0 \<le> off" and "off < 2 ^ 24"
  shows "\<exists>n. api_axis_value p q r off = Inr n
           \<and> of_int n \<le> (of_int (p * r) / of_int q + of_int off :: rat)
           \<and> (of_int (p * r) / of_int q + of_int off :: rat) - 1 \<le> of_int n"
proof -
  from api_axis [OF assms] obtain a n where
    a: "scaled p q r = Inr (Fin a)" "int_of_sum (Fin a) off = Inr n"
       "of_int n \<le> (of_int (p * r) / of_int q + of_int off :: rat)"
       "(of_int (p * r) / of_int q + of_int off :: rat) - 1 \<le> of_int n" by blast
  have "api_axis_value p q r off = Inr n" using a(1,2) by (simp add: api_axis_value_def)
  then show ?thesis using a(3,4) by blast
qed

lemma computer_axis_value_bounds:
  assumes "0 \<le> p" and "p < 2 ^ 24" and "1 \<le> q" and "q < 2 ^ 24" and "1 \<le> r" and "r < 2 ^ 24"
  shows "\<exists>n. computer_axis_value p q r = Inr n \<and> 0 \<le> n
           \<and> of_int n \<le> (of_int (p * r) / of_int q :: rat)
           \<and> (of_int (p * r) / of_int q :: rat) - 1 \<le> of_int n"
proof -
  from computer_axis [OF assms] obtain a n where
    a: "scaled p q r = Inr (Fin a)" "int_of_float (Fin a) = Inr n" "0 \<le> n"
       "of_int n \<le> (of_int (p * r) / of_int q :: rat)"
       "(of_int (p * r) / of_int q :: rat) - 1 \<le> of_int n" by blast
  have "computer_axis_value p q r = Inr n" using a(1,2) by (simp add: computer_axis_value_def)
  then show ?thesis using a(3,4,5) by blast
qed

lemma api_axis_value_exact:
  assumes "0 \<le> p" and "p < 2 ^ 24" and "1 \<le> q" and "q < 2 ^ 24" and "1 \<le> r" and "r < 2 ^ 24"
      and "0 \<le> off" and "off < 2 ^ 24"
      and "of_int m < (of_int (p * r) / of_int q + of_int off :: rat)"
      and "(of_int (p * r) / of_int q + of_int off :: rat) < of_int m + 1"
  shows "api_axis_value p q r off = Inr m"
proof -
  from api_axis_value_bounds [OF assms(1-8)] obtain n where
    n: "api_axis_value p q r off = Inr n"
       "of_int n \<le> (of_int (p * r) / of_int q + of_int off :: rat)"
       "(of_int (p * r) / of_int q + of_int off :: rat) - 1 \<le> of_int n" by blast
  have "(of_int n :: rat) < of_int (m + 1)" using n(2) assms(10) by simp
  then have u: "n < m + 1" by (simp only: of_int_less_iff)
  have "(of_int (m - 1) :: rat) < of_int n" using n(3) assms(9) by simp
  then have l: "m - 1 < n" by (simp only: of_int_less_iff)
  from u l have "n = m" by simp
  then show ?thesis using n(1) by simp
qed

lemma computer_axis_value_exact:
  assumes "0 \<le> p" and "p < 2 ^ 24" and "1 \<le> q" and "q < 2 ^ 24" and "1 \<le> r" and "r < 2 ^ 24"
      and "of_int m < (of_int (p * r) / of_int q :: rat)"
      and "(of_int (p * r) / of_int q :: rat) < of_int m + 1"
  shows "computer_axis_value p q r = Inr m"
proof -
  from computer_axis_value_bounds [OF assms(1-6)] obtain n where
    n: "computer_axis_value p q r = Inr n"
       "of_int n \<le> (of_int (p * r) / of_int q :: rat)"
       "(of_int (p * r) / of_int q :: rat) - 1 \<le> of_int n" by blast
  have "(of_int n :: rat) < of_int (m + 1)" using n(2) assms(8) by simp
  then have u: "n < m + 1" by (simp only: of_int_less_iff)
  have "(of_int (m - 1) :: rat) < of_int n" using n(3) assms(7) by simp
  then have l: "m - 1 < n" by (simp only: of_int_less_iff)
  from u l have "n = m" by simp
  then show ?thesis using n(1) by simp
qed

lemma axis_round_trip:
  assumes b: "1 \<le> b" "b < 2 ^ 24" and w: "1 \<le> w" "w < 2 ^ 24"
      and o: "0 \<le> off" "off < 2 ^ 24" and x: "0 \<le> x" "x \<le> b"
  shows "\<exists>n1 l n2. api_axis_value x b w off = Inr n1
           \<and> computer_axis_value (rel_coord (clamp_axis n1 off w) off w) w b = Inr l
           \<and> 0 \<le> l
           \<and> api_axis_value l b w off = Inr n2
           \<and> clamp_axis n2 off w \<le> clamp_axis n1 off w
           \<and> clamp_axis n1 off w - clamp_axis n2 off w \<le> w div b + 1"
proof -
  have x24: "x < 2 ^ 24" using x(2) b(2) by simp
  from api_axis_value_bounds [OF x(1) x24 b w o] obtain n1 where
    n1: "api_axis_value x b w off = Inr n1" by blast
  define s1 where "s1 = clamp_axis n1 off w"
  define k where "k = s1 - off"
  from clamp_axis_range [OF w(1), of off n1]
  have s1r: "off \<le> s1" "s1 \<le> off + w - 1" unfolding s1_def by simp_all
  have k0: "0 \<le> k" and kw: "k \<le> w - 1" unfolding k_def using s1r by simp_all
  have k24: "k < 2 ^ 24" using kw w(2) by simp
  have rel: "rel_coord s1 off w = k"
    unfolding rel_coord_eq k_def using s1r o(1) w(1) by simp
  from computer_axis_value_bounds [OF k0 k24 w b] obtain l where
    l: "computer_axis_value k w b = Inr l" "0 \<le> l"
       "of_int l \<le> (of_int (k * b) / of_int w :: rat)"
       "(of_int (k * b) / of_int w :: rat) - 1 \<le> of_int l" by blast
  define W :: rat where "W = of_int w"
  define B :: rat where "B = of_int b"
  define K :: rat where "K = of_int k"
  define L :: rat where "L = of_int l"
  have Wp: "0 < W" unfolding W_def using w(1) by simp
  have Bp: "0 < B" unfolding B_def using b(1) by simp
  have Kn: "0 \<le> K" unfolding K_def using k0 by simp
  have KW: "K \<le> W" unfolding K_def W_def using kw by simp
  have l3: "L \<le> K * B / W" using l(3) unfolding L_def K_def B_def W_def by simp
  have l4: "K * B / W - 1 \<le> L" using l(4) unfolding L_def K_def B_def W_def by simp
  have lw: "L * W \<le> K * B" using l3 Wp by (simp add: pos_le_divide_eq)
  have "K * B \<le> W * B" using KW Bp by (intro mult_right_mono) simp_all
  then have "K * B / W \<le> B" using Wp by (simp add: pos_divide_le_eq mult.commute)
  then have "L \<le> B" using l3 by simp
  then have lb: "l \<le> b" unfolding L_def B_def by (simp only: of_int_le_iff)
  have l24: "l < 2 ^ 24" using lb b(2) by simp
  from api_axis_value_bounds [OF l(2) l24 b w o] obtain n2 where
    n2: "api_axis_value l b w off = Inr n2"
        "of_int n2 \<le> (of_int (l * w) / of_int b + of_int off :: rat)"
        "(of_int (l * w) / of_int b + of_int off :: rat) - 1 \<le> of_int n2" by blast
  have n2u: "of_int n2 \<le> L * W / B + of_int off"
    using n2(2) unfolding L_def W_def B_def by simp
  have n2l: "L * W / B + of_int off - 1 \<le> of_int n2"
    using n2(3) unfolding L_def W_def B_def by simp
  have "L * W / B \<le> K" using lw Bp by (simp add: pos_divide_le_eq)
  then have "(of_int n2 :: rat) \<le> K + of_int off" using n2u by simp
  then have "(of_int n2 :: rat) \<le> of_int (k + off)" unfolding K_def by simp
  then have "n2 \<le> k + off" by (simp only: of_int_le_iff)
  then have n2s: "n2 \<le> s1" unfolding k_def by simp
  define s2 where "s2 = clamp_axis n2 off w"
  have s2u: "s2 \<le> s1" unfolding s2_def clamp_axis_def using n2s s1r by simp
  have s2l: "n2 \<le> s2" unfolding s2_def clamp_axis_def using n2s s1r by simp
  have "K * B - W \<le> L * W"
  proof -
    have "(K * B / W - 1) * W \<le> L * W" using l4 Wp by (intro mult_right_mono) simp_all
    moreover have "(K * B / W - 1) * W = K * B - W" using Wp by (simp add: field_simps)
    ultimately show ?thesis by simp
  qed
  then have "(K * B - W) / B \<le> L * W / B" using Bp by (intro divide_right_mono) simp_all
  moreover have "(K * B - W) / B = K - W / B" using Bp by (simp add: diff_divide_distrib)
  ultimately have "K - W / B \<le> L * W / B" by simp
  then have "K - W / B + of_int off - 1 \<le> of_int n2" using n2l by simp
  then have "K + of_int off - of_int n2 - 1 \<le> W / B" by simp
  then have "(of_int (s1 - n2 - 1) :: rat) \<le> of_int w / of_int b"
    unfolding K_def k_def W_def B_def by simp
  then have "s1 - n2 - 1 \<le> \<lfloor>of_int w / of_int b :: rat\<rfloor>" by (simp only: le_floor_iff)
  then have "s1 - n2 - 1 \<le> w div b" by (simp only: floor_divide_of_int_eq)
  then have dev: "s1 - s2 \<le> w div b + 1" using s2l by simp
  have c: "computer_axis_value (rel_coord (clamp_axis n1 off w) off w) w b = Inr l"
    using l(1) rel unfolding s1_def by simp
  show ?thesis
    using n1 c l(2) n2(1) s2u dev unfolding s1_def s2_def by blast
qed

text \<open>
  C6.  With scaling enabled, screen and logical dimensions between \<open>1\<close> and \<open>2 ^ 24\<close>,
  offsets between \<open>0\<close> and \<open>2 ^ 24\<close>, and \<open>(x, y)\<close> within the logical bounds, the three
  calls API, COMPUTER, API of \<open>scale_coordinates\<close> all return, the second screen
  coordinate is never beyond the first, and on each axis it falls short of it by at
  most \<open>real_dimension div logical_dimension + 1\<close>.
\<close>

theorem round_trip_tolerance:
  assumes "enabled (scaling (config self))"
      and "1 \<le> base_width (scaling (config self))"
      and "base_width (scaling (config self)) < 2 ^ 24"
      and "1 \<le> base_height (scaling (config self))"
      and "base_height (scaling (config self)) < 2 ^ 24"
      and "1 \<le> screen_width self" and "screen_width self < 2 ^ 24"
      and "1 \<le> screen_height self" and "screen_height self < 2 ^ 24"
      and "0 \<le> offset_x self" and "offset_x self < 2 ^ 24"
      and "0 \<le> offset_y self" and "offset_y self < 2 ^ 24"
      and "0 \<le> x" and "x \<le> base_width (scaling (config self))"
      and "0 \<le> y" and "y \<le> base_height (scaling (config self))"
  shows "\<exists>sx sy lx ly tx ty.
           scale_coordinates self API x y = Inr (sx, sy)
         \<and> scale_coordinates self COMPUTER sx sy = Inr (lx, ly)
         \<and> scale_coordinates self API lx ly = Inr (tx, ty)
         \<and> tx \<le> sx \<and> sx - tx \<le> screen_width self div base_width (scaling (config self)) + 1
         \<and> ty \<le> sy \<and> sy - ty \<le> screen_height self div base_height (scaling (config self)) + 1"
proof -
  from axis_round_trip [OF assms(2,3) assms(6,7) assms(10,11) assms(14,15)]
  obtain n1 lx n2 where
    ax: "api_axis_value x (base_width (scaling (config self))) (screen_width self)
           (offset_x self) = Inr n1"
        "computer_axis_value (rel_coord (clamp_axis n1 (offset_x self) (screen_width self))
             (offset_x self) (screen_width self)) (screen_width self)
             (base_width (scaling (config self))) = Inr lx"
        "0 \<le> lx"
        "api_axis_value lx (base_width (scaling (config self))) (screen_width self)
           (offset_x self) = Inr n2"
        "clamp_axis n2 (offset_x self) (screen_width self)
           \<le> clamp_axis n1 (offset_x self) (screen_width self)"
        "clamp_axis n1 (offset_x self) (screen_width self)
           - clamp_axis n2 (offset_x self) (screen_width self)
           \<le> screen_width self div base_width (scaling (config self)) + 1" by blast
  from axis_round_trip [OF assms(4,5) assms(8,9) assms(12,13) assms(16,17)]
  obtain m1 ly m2 where
    ay: "api_axis_value y (base_height (scaling (config self))) (screen_height self)
           (offset_y self) = Inr m1"
        "computer_axis_value (rel_coord (clamp_axis m1 (offset_y self) (screen_height self))
             (offset_y self) (screen_height self)) (screen_height self)
             (base_height (scaling (config self))) = Inr ly"
        "0 \<le> ly"
        "api_axis_value ly (base_height (scaling (config self))) (screen_height self)
           (offset_y self) = Inr m2"
        "clamp_axis m2 (offset_y self) (screen_height self)
           \<le> clamp_axis m1 (offset_y self) (screen_height self)"
        "clamp_axis m1 (offset_y self) (screen_height self)
           - clamp_axis m2 (offset_y self) (screen_height self)
           \<le> screen_height self div base_height (scaling (config self)) + 1" by blast
  have nx: "nonneg_coord x = x" and ny: "nonneg_coord y = y"
    using assms(14,16) by (simp_all add: nonneg_coord_def)
  have nlx: "nonneg_coord lx = lx" and nly: "nonneg_coord ly = ly"
    using ax(3) ay(3) by (simp_all add: nonneg_coord_def)
  have c1: "scale_coordinates self API x y =
      Inr (clamp_axis n1 (offset_x self) (screen_width self),
           clamp_axis m1 (offset_y self) (screen_height self))"
    by (rule scale_api_value [OF assms(1)]) (simp_all only: nx ny ax(1) ay(1))
  have c2: "scale_coordinates self COMPUTER
        (clamp_axis n1 (offset_x self) (screen_width self))
        (clamp_axis m1 (offset_y self) (screen_height self)) = Inr (lx, ly)"
    by (rule scale_computer_value [OF assms(1) ax(2) ay(2)])
  have c3: "scale_coordinates self API lx ly =
      Inr (clamp_axis n2 (offset_x self) (screen_width self),
           clamp_axis m2 (offset_y self) (screen_height self))"
    by (rule scale_api_value [OF assms(1)]) (simp_all only: nlx nly ax(4) ay(4))
  show ?thesis using c1 c2 c3 ax(5,6) ay(5,6) by blast
qed

theorem round_trip_tolerance_witness:
  "\<exists>sx sy lx ly tx ty.
       scale_coordinates tank_controller_init API 683 384 = Inr (sx, sy)
     \<and> scale_coordinates tank_controller_init COMPUTER sx sy = Inr (lx, ly)
     \<and> scale_coordinates tank_controller_init API lx ly = Inr (tx, ty)
     \<and> tx \<le> sx \<and> sx - tx \<le> 2 \<and> ty \<le> sy \<and> sy - ty \<le> 2"
  using round_trip_tolerance [of tank_controller_init 683 384]
  by (simp add: tank_controller_init_def)

lemma xga_api_2: "api_axis_value 2 1024 1920 0 = Inr 3"
  by (rule api_axis_value_exact) simp_all

lemma xga_api_2y: "api_axis_value 2 768 1440 0 = Inr 3"
  by (rule api_axis_value_exact) simp_all

lemma xga_computer_3: "computer_axis_value 3 1920 1024 = Inr 1"
  by (rule computer_axis_value_exact) simp_all

lemma xga_computer_3y: "computer_axis_value 3 1440 768 = Inr 1"
  by (rule computer_axis_value_exact) simp_all

lemma xga_api_1: "api_axis_value 1 1024 1920 0 = Inr 1"
  by (rule api_axis_value_exact) simp_all

lemma xga_api_1y: "api_axis_value 1 768 1440 0 = Inr 1"
  by (rule api_axis_value_exact) simp_all

theorem round_trip_off_by_two:
  "scale_coordinates xga_controller API 2 2 = Inr (3, 3)
   \<and> scale_coordinates xga_controller COMPUTER 3 3 = Inr (1, 1)
   \<and> scale_coordinates xga_controller API 1 1 = Inr (1, 1)
   \<and> base_width (scaling (config xga_controller)) * screen_height xga_controller
       = base_height (scaling (config xga_controller)) * screen_width xga_controller"
proof -
  have e: "enabled (scaling (config xga_controller))"
    by (simp add: xga_controller_def)
  have a1: "scale_coordinates xga_controller API 2 2 = Inr (3, 3)"
    using scale_api_value [OF e, of 2 3 2 3] xga_api_2 xga_api_2y
    by (simp add: xga_controller_def tank_controller_init_def nonneg_coord_def clamp_axis_def)
  have a2: "scale_coordinates xga_controller COMPUTER 3 3 = Inr (1, 1)"
    using scale_computer_value [OF e, of 3 1 3 1] xga_computer_3 xga_computer_3y
    by (simp add: xga_controller_def tank_controller_init_def rel_coord_def)
  have a3: "scale_coordinates xga_controller API 1 1 = Inr (1, 1)"
    using scale_api_value [OF e, of 1 1 1 1] xga_api_1 xga_api_1y
    by (simp add: xga_controller_def tank_controller_init_def nonneg_coord_def clamp_axis_def)
  show ?thesis using a1 a2 a3
    by (simp add: xga_controller_def tank_controller_init_def)
qed

end
